theory Spec2Isabelle
  imports Complex_Main "HOL-Library.Word"
begin

section \<open>Scalars: IEEE 754 binary64\<close>

text \<open>
  The solver of \<^verbatim>\<open>FiniteElemNL.cpp\<close> computes on C++ \<^verbatim>\<open>double\<close>s held in Armadillo
  vectors and matrices. A \<^verbatim>\<open>double\<close> is modelled by its value: \<open>Fin x\<close> for a real number
  \<open>x\<close> (with \<open>Fin 0\<close> the zero of positive sign), \<open>NZero\<close> for the zero of negative sign, the
  two infinities, and NaN. Every arithmetic operation rounds its exact result to the nearest
  binary64 number, ties to the even significand, overflows to an infinity and underflows to
  a zero that keeps the sign, as IEEE 754 prescribes in its default rounding mode.
\<close>

datatype double = Fin real | NZero | PInf | NInf | NaN

text \<open>
  \<open>rhe x\<close> is the integer nearest to \<open>x\<close>, the even one of the two when \<open>x\<close> lies halfway.
\<close>

definition rhe :: "real \<Rightarrow> int" where
  "rhe x =
     (let n = \<lfloor>x\<rfloor>; d = x - of_int n
      in if d < 1 / 2 then n else if 1 / 2 < d then n + 1 else if even n then n else n + 1)"

text \<open>
  \<open>bexp 2045 x\<close> is the binade of \<open>x \<ge> 0\<close>: the largest \<open>e\<close> among \<open>-1021, ..., 1023\<close> with
  \<open>2^e \<le> x\<close>, and \<open>-1022\<close> (the binade of the subnormal numbers) when there is none.
\<close>

primrec bexp :: "nat \<Rightarrow> real \<Rightarrow> int" where
  "bexp 0 x = - 1022"
| "bexp (Suc n) x = (if 2 powi (int n - 1021) \<le> x then int n - 1021 else bexp n x)"

text \<open>
  \<open>fl x\<close> is the \<^verbatim>\<open>double\<close> that the real number \<open>x\<close> rounds to. In the binade \<open>e\<close> of
  \<open>x\<close> the binary64 numbers are the multiples of \<open>2^(e - 52)\<close> (53 bits of significand);
  \<open>x\<close> is rounded to the nearest of them. A result of magnitude \<open>2^1024\<close> is an overflow.
\<close>

definition fl :: "real \<Rightarrow> double" where
  "fl x =
     (let e = bexp 2045 \<bar>x\<bar> - 52;
          y = of_int (rhe (x / 2 powi e)) * 2 powi e
      in if 2 ^ 1024 \<le> \<bar>y\<bar> then (if 0 < x then PInf else NInf)
         else if y = 0 then (if x < 0 then NZero else Fin 0)
         else Fin y)"

instantiation double :: "{zero, plus, uminus, minus, times, inverse, abs, ord}"
begin

definition zero_double :: double where
  "zero_double = Fin 0"

fun plus_double :: "double \<Rightarrow> double \<Rightarrow> double" where
  "plus_double (Fin a) (Fin b) = fl (a + b)"
| "plus_double (Fin a) NZero = fl a"
| "plus_double NZero (Fin b) = fl b"
| "plus_double NZero NZero = NZero"
| "plus_double NaN y = NaN"
| "plus_double x NaN = NaN"
| "plus_double PInf NInf = NaN"
| "plus_double NInf PInf = NaN"
| "plus_double PInf y = PInf"
| "plus_double x PInf = PInf"
| "plus_double NInf y = NInf"
| "plus_double x NInf = NInf"

fun uminus_double :: "double \<Rightarrow> double" where
  "uminus_double (Fin a) = (if a = 0 then NZero else Fin (- a))"
| "uminus_double NZero = Fin 0"
| "uminus_double PInf = NInf"
| "uminus_double NInf = PInf"
| "uminus_double NaN = NaN"

definition minus_double :: "double \<Rightarrow> double \<Rightarrow> double" where
  "minus_double x y = x + (- y)"

fun times_double :: "double \<Rightarrow> double \<Rightarrow> double" where
  "times_double (Fin a) (Fin b) =
     (if a = 0 \<or> b = 0 then (if (a < 0) = (b < 0) then Fin 0 else NZero) else fl (a * b))"
| "times_double (Fin a) NZero = (if a < 0 then Fin 0 else NZero)"
| "times_double NZero (Fin b) = (if b < 0 then Fin 0 else NZero)"
| "times_double NZero NZero = Fin 0"
| "times_double NaN y = NaN"
| "times_double x NaN = NaN"
| "times_double (Fin a) PInf = (if a = 0 then NaN else if 0 < a then PInf else NInf)"
| "times_double (Fin a) NInf = (if a = 0 then NaN else if 0 < a then NInf else PInf)"
| "times_double PInf (Fin b) = (if b = 0 then NaN else if 0 < b then PInf else NInf)"
| "times_double NInf (Fin b) = (if b = 0 then NaN else if 0 < b then NInf else PInf)"
| "times_double NZero y = NaN"
| "times_double x NZero = NaN"
| "times_double PInf PInf = PInf"
| "times_double PInf NInf = NInf"
| "times_double NInf PInf = NInf"
| "times_double NInf NInf = PInf"

fun divide_double :: "double \<Rightarrow> double \<Rightarrow> double" where
  "divide_double (Fin a) (Fin b) =
     (if b \<noteq> 0 then (if a = 0 then (if b < 0 then NZero else Fin 0) else fl (a / b))
      else if a = 0 then NaN else if 0 < a then PInf else NInf)"
| "divide_double (Fin a) NZero = (if a = 0 then NaN else if 0 < a then NInf else PInf)"
| "divide_double NZero (Fin b) = (if b = 0 then NaN else if b < 0 then Fin 0 else NZero)"
| "divide_double NZero NZero = NaN"
| "divide_double NaN y = NaN"
| "divide_double x NaN = NaN"
| "divide_double (Fin a) PInf = (if a < 0 then NZero else Fin 0)"
| "divide_double (Fin a) NInf = (if a < 0 then Fin 0 else NZero)"
| "divide_double NZero PInf = NZero"
| "divide_double NZero NInf = Fin 0"
| "divide_double PInf (Fin b) = (if 0 \<le> b then PInf else NInf)"
| "divide_double NInf (Fin b) = (if 0 \<le> b then NInf else PInf)"
| "divide_double PInf NZero = NInf"
| "divide_double NInf NZero = PInf"
| "divide_double PInf y = NaN"
| "divide_double NInf y = NaN"

definition inverse_double :: "double \<Rightarrow> double" where
  "inverse_double x = divide (Fin 1) x"

fun abs_double :: "double \<Rightarrow> double" where
  "abs_double (Fin a) = Fin \<bar>a\<bar>"
| "abs_double NZero = Fin 0"
| "abs_double PInf = PInf"
| "abs_double NInf = PInf"
| "abs_double NaN = NaN"

fun less_double :: "double \<Rightarrow> double \<Rightarrow> bool" where
  "less_double (Fin a) (Fin b) = (a < b)"
| "less_double (Fin a) NZero = (a < 0)"
| "less_double NZero (Fin b) = (0 < b)"
| "less_double NZero NZero = False"
| "less_double NaN y = False"
| "less_double x NaN = False"
| "less_double x NInf = False"
| "less_double PInf y = False"
| "less_double NInf y = True"
| "less_double x PInf = True"

fun less_eq_double :: "double \<Rightarrow> double \<Rightarrow> bool" where
  "less_eq_double (Fin a) (Fin b) = (a \<le> b)"
| "less_eq_double (Fin a) NZero = (a \<le> 0)"
| "less_eq_double NZero (Fin b) = (0 \<le> b)"
| "less_eq_double NZero NZero = True"
| "less_eq_double NaN y = False"
| "less_eq_double x NaN = False"
| "less_eq_double NInf y = True"
| "less_eq_double x PInf = True"
| "less_eq_double x NInf = False"
| "less_eq_double PInf y = False"

instance ..

end

text \<open>\<^verbatim>\<open>std::sqrt\<close>, used by Armadillo's \<^verbatim>\<open>norm\<close>; it is correctly rounded.\<close>

fun dsqrt :: "double \<Rightarrow> double" where
  "dsqrt (Fin a) = (if a < 0 then NaN else fl (sqrt a))"
| "dsqrt NZero = NZero"
| "dsqrt PInf = PInf"
| "dsqrt NInf = NaN"
| "dsqrt NaN = NaN"


text \<open>
  The literal \<^verbatim>\<open>1e-6\<close> of lines 60, 72, 73, 195 and 216: the \<^verbatim>\<open>double\<close> nearest to
  \<open>10^-6\<close>.
\<close>

definition lit_1e_6 :: double where
  "lit_1e_6 = fl (1 / 10 ^ 6)"

section \<open>Vectors and Armadillo's checked accesses\<close>

text \<open>
  \<^verbatim>\<open>vec\<close> is a list of doubles, \<^verbatim>\<open>mat\<close> the list of its rows (all of one length), and
  \<^verbatim>\<open>uvec\<close> a list of unsigned indices. Index data is never computed with, so it is kept as
  natural numbers; the loop counters of the two sweeps, whose arithmetic wraps, are
  words of 64 bits (\<^verbatim>\<open>uword\<close>, as Armadillo defines it on a 64-bit platform).
\<close>

type_synonym vec = "double list"
type_synonym mat = "double list list"
type_synonym uvec = "nat list"
type_synonym uword = "64 word"

text \<open>
  Armadillo checks every index and every operand size (unless compiled with
  \<^verbatim>\<open>ARMA_NO_DEBUG\<close>) and throws \<^verbatim>\<open>std::logic_error\<close>; \<^verbatim>\<open>solve\<close> throws
  \<^verbatim>\<open>std::runtime_error\<close> when it finds no solution. An exception is the left summand
  of a result, named by its C++ type.
\<close>

datatype error = LogicError | RuntimeError

definition bindE :: "error + 'a \<Rightarrow> ('a \<Rightarrow> error + 'b) \<Rightarrow> error + 'b" where
  "bindE m f = (case m of Inl e \<Rightarrow> Inl e | Inr x \<Rightarrow> f x)"

text \<open>
  \<^verbatim>\<open>sum(v)\<close> of a vector. Floating-point addition is not associative, so the order counts:
  Armadillo's \<^verbatim>\<open>accumulate\<close> keeps two running sums, one over the entries at the even
  positions and one over those at the odd positions, and adds the two at the end.
\<close>

fun accumulate :: "double \<Rightarrow> double \<Rightarrow> vec \<Rightarrow> double" where
  "accumulate acc1 acc2 (x # y # xs) = accumulate (acc1 + x) (acc2 + y) xs"
| "accumulate acc1 acc2 [x] = (acc1 + x) + acc2"
| "accumulate acc1 acc2 [] = acc1 + acc2"

definition sum_vec :: "vec \<Rightarrow> double" where
  "sum_vec v = accumulate 0 0 v"

text \<open>\<^verbatim>\<open>find(v == i)\<close>: the positions of the entries equal to \<open>i\<close>, in increasing order.\<close>

definition find_eq :: "uvec \<Rightarrow> nat \<Rightarrow> uvec" where
  "find_eq v i = filter (\<lambda>k. v ! k = i) [0..<length v]"

text \<open>\<^verbatim>\<open>v.elem(q)\<close>: the entries at the positions \<open>q\<close>; every position is checked.\<close>

definition elem_at :: "vec \<Rightarrow> uvec \<Rightarrow> error + vec" where
  "elem_at v q = (if list_all (\<lambda>k. k < length v) q then Inr (map (\<lambda>k. v ! k) q)
               else Inl LogicError)"

section \<open>accumArray (lines 125-148)\<close>

function accumArray_loop :: "uvec \<Rightarrow> vec \<Rightarrow> nat \<Rightarrow> nat \<Rightarrow> vec \<Rightarrow> error + vec" where
  "accumArray_loop subs ar N i S =
     (if i < N then
        (let q1 = find_eq subs i in
         if q1 \<noteq> [] then
           (case elem_at ar q1 of
              Inl e \<Rightarrow> Inl e
            | Inr spot \<Rightarrow> accumArray_loop subs ar N (i + 1) (S[i := sum_vec spot]))
         else accumArray_loop subs ar N (i + 1) (S[i := 0]))
      else Inr S)"
  by pat_completeness auto
termination
  by (relation "measure (\<lambda>(subs, ar, N, i, S). N - i)") auto

definition accumArray :: "uvec \<Rightarrow> vec \<Rightarrow> nat \<Rightarrow> error + vec" where
  "accumArray subs ar N = accumArray_loop subs ar N 0 (replicate N 0)"

section \<open>Checked element and range accesses\<close>

text \<open>\<^verbatim>\<open>v(i)\<close>, \<^verbatim>\<open>A.row(i)\<close> and \<^verbatim>\<open>A(i,j)\<close>, with the index a \<^verbatim>\<open>uword\<close>.\<close>

definition elt :: "vec \<Rightarrow> uword \<Rightarrow> error + double" where
  "elt v i = (if unat i < length v then Inr (v ! unat i) else Inl LogicError)"

definition row :: "mat \<Rightarrow> uword \<Rightarrow> error + vec" where
  "row A i = (if unat i < length A then Inr (A ! unat i) else Inl LogicError)"

definition elt2 :: "mat \<Rightarrow> uword \<Rightarrow> uword \<Rightarrow> error + double" where
  "elt2 A i j = bindE (row A i) (\<lambda>Ar. elt Ar j)"

text \<open>
  \<^verbatim>\<open>v.cols(span(a,b))\<close> on a row and \<^verbatim>\<open>v.rows(span(a,b))\<close> on a column: the entries
  \<open>a..b\<close>, both ends included. Armadillo refuses \<open>a > b\<close> and \<open>b\<close> beyond the last entry.
\<close>

definition subvec :: "vec \<Rightarrow> uword \<Rightarrow> uword \<Rightarrow> error + vec" where
  "subvec v a b =
     (if b < a \<or> length v \<le> unat b then Inl LogicError
      else Inr (take (unat b - unat a + 1) (drop (unat a) v)))"

text \<open>
  The product of a row and a column (a 1x1 matrix, read as \<^verbatim>\<open>currA(0,0)\<close>): the
  products of the entries, accumulated as \<^verbatim>\<open>sum\<close> does.
\<close>

definition dot :: "vec \<Rightarrow> vec \<Rightarrow> double" where
  "dot xs ys = sum_vec (map2 (*) xs ys)"

definition rowcol :: "vec \<Rightarrow> vec \<Rightarrow> error + double" where
  "rowcol xs ys = (if length xs = length ys then Inr (dot xs ys) else Inl LogicError)"

section \<open>NWTsolve1D (lines 222-237)\<close>

text \<open>
  \<^verbatim>\<open>FunSCNL1D\<close> is declared in a header that is not part of the sources: an object of it
  offers \<^verbatim>\<open>evalF\<close> and \<^verbatim>\<open>evalDF\<close> on a scalar. Its constructor, from the three
  parameters \<^verbatim>\<open>pars\<close>, is a parameter \<open>FunSCNL1D\<close> of the sweeps.
\<close>

record Fun1D =
  evalF :: "double \<Rightarrow> double"
  evalDF :: "double \<Rightarrow> double"

function NWTsolve1D_loop ::
  "Fun1D \<Rightarrow> double \<Rightarrow> nat \<Rightarrow> double \<Rightarrow> double \<Rightarrow> nat \<Rightarrow> double \<Rightarrow> double \<Rightarrow> double" where
  "NWTsolve1D_loop f tol maxitr fp df n err x =
     (if tol < err \<and> n < maxitr then
        (let x' = x - fp / df;
             df' = evalDF f x';
             fp' = evalF f x';
             err' = \<bar>fp'\<bar>
         in NWTsolve1D_loop f tol maxitr fp' df' (n + 1) err' x')
      else x)"
  by pat_completeness auto
termination
  by (relation "measure (\<lambda>(f, tol, maxitr, fp, df, n, err, x). maxitr - n)") auto

definition NWTsolve1D :: "Fun1D \<Rightarrow> double \<Rightarrow> double \<Rightarrow> nat \<Rightarrow> double" where
  "NWTsolve1D f x0 tol maxitr =
     (let fp = evalF f x0;
          df = evalDF f x0;
          err = \<bar>fp\<bar>
      in NWTsolve1D_loop f tol maxitr fp df 0 err x0)"

section \<open>GSsolve, the forward sweep (lines 179-199)\<close>

text \<open>Lines 186-187: the row of \<open>A\<close> against \<open>u\<close>, left and right of column \<open>i\<close>.\<close>

definition GSsolve_currA :: "mat \<Rightarrow> vec \<Rightarrow> uword \<Rightarrow> uword \<Rightarrow> error + double" where
  "GSsolve_currA A u Nu i =
     bindE (row A i) (\<lambda>Ar.
     bindE (subvec Ar 0 (i - 1)) (\<lambda>a1.
     bindE (subvec u 0 (i - 1)) (\<lambda>u1.
     bindE (subvec Ar (i + 1) (Nu - 1)) (\<lambda>a2.
     bindE (subvec u (i + 1) (Nu - 1)) (\<lambda>u2.
     bindE (rowcol a1 u1) (\<lambda>p1.
     bindE (rowcol a2 u2) (\<lambda>p2. Inr (p1 + p2))))))))"

text \<open>Lines 185-195: the body of the loop for a free index \<open>i\<close>.\<close>

definition GSsolve_node ::
  "(vec \<Rightarrow> Fun1D) \<Rightarrow> vec \<Rightarrow> vec \<Rightarrow> mat \<Rightarrow> uword \<Rightarrow> vec \<Rightarrow> uword \<Rightarrow> error + vec" where
  "GSsolve_node FunSCNL1D b M A Nu u i =
     bindE (GSsolve_currA A u Nu i) (\<lambda>currA.
     bindE (elt b i) (\<lambda>bi.
     bindE (elt2 A i i) (\<lambda>aii.
     bindE (elt M i) (\<lambda>mi.
     bindE (elt u i) (\<lambda>ui.
       (let ci = currA + bi;
            nfun = FunSCNL1D [ci, aii, mi]
        in Inr (u[unat i := NWTsolve1D nfun ui lit_1e_6 10])))))))"

function GSsolve_loop ::
  "(vec \<Rightarrow> Fun1D) \<Rightarrow> vec \<Rightarrow> vec \<Rightarrow> mat \<Rightarrow> uvec \<Rightarrow> uword \<Rightarrow> uword \<Rightarrow> vec \<Rightarrow> error + vec" where
  "GSsolve_loop FunSCNL1D b M A freeNode Nu i u =
     (if i < Nu - 1 then
        (if find_eq freeNode (unat i) \<noteq> [] then
           (case GSsolve_node FunSCNL1D b M A Nu u i of
              Inl e \<Rightarrow> Inl e
            | Inr u' \<Rightarrow> GSsolve_loop FunSCNL1D b M A freeNode Nu (i + 1) u')
         else GSsolve_loop FunSCNL1D b M A freeNode Nu (i + 1) u)
      else Inr u)"
  by pat_completeness auto
termination
proof (relation "measure (\<lambda>(FunSCNL1D, b, M, A, freeNode, Nu, i, u). unat (Nu - 1) - unat i)")
  show "wf (measure (\<lambda>(FunSCNL1D, b, M, A, freeNode, Nu, i, u). unat (Nu - 1) - unat i))"
    by simp
next
  fix FunSCNL1D :: "vec \<Rightarrow> Fun1D" and b M :: vec and A :: mat and freeNode :: uvec
    and Nu i :: uword and u x2 :: vec
  assume lt: "i < Nu - 1"
  then have "unat i < unat (Nu - 1)"
    by (simp add: word_less_nat_alt)
  moreover have "unat (Nu - 1) < 2 ^ 64"
    using unsigned_less[of "Nu - 1"] by simp
  ultimately have "unat i + 1 < 2 ^ 64"
    by arith
  then have "unat (i + 1) = unat i + 1"
    by (simp add: unat_word_ariths)
  with \<open>unat i < unat (Nu - 1)\<close> show
    "((FunSCNL1D, b, M, A, freeNode, Nu, i + 1, x2), (FunSCNL1D, b, M, A, freeNode, Nu, i, u))
       \<in> measure (\<lambda>(FunSCNL1D, b, M, A, freeNode, Nu, i, u). unat (Nu - 1) - unat i)"
    "((FunSCNL1D, b, M, A, freeNode, Nu, i + 1, u), (FunSCNL1D, b, M, A, freeNode, Nu, i, u))
       \<in> measure (\<lambda>(FunSCNL1D, b, M, A, freeNode, Nu, i, u). unat (Nu - 1) - unat i)"
    by simp_all
qed

text \<open>
  The parameters \<open>maxitr\<close> and \<open>tol\<close> are part of the signature; \<open>Nu\<close> is the length of
  \<open>u\<close> as a \<^verbatim>\<open>uword\<close>.
\<close>

definition GSsolve ::
  "(vec \<Rightarrow> Fun1D) \<Rightarrow> vec \<Rightarrow> vec \<Rightarrow> nat \<Rightarrow> vec \<Rightarrow> mat \<Rightarrow> double \<Rightarrow> uvec \<Rightarrow> error + vec" where
  "GSsolve FunSCNL1D b u maxitr M A tol freeNode =
     (let Nu = (of_nat (length u) :: uword)
      in GSsolve_loop FunSCNL1D b M A freeNode Nu 1 u)"

section \<open>GSsolveb, the backward sweep (lines 201-220)\<close>

text \<open>Lines 208-209: the second range starts at column \<open>i\<close> itself.\<close>

definition GSsolveb_currA :: "mat \<Rightarrow> vec \<Rightarrow> uword \<Rightarrow> uword \<Rightarrow> error + double" where
  "GSsolveb_currA A u Nu i =
     bindE (row A i) (\<lambda>Ar.
     bindE (subvec Ar 0 (i - 1)) (\<lambda>a1.
     bindE (subvec u 0 (i - 1)) (\<lambda>u1.
     bindE (subvec Ar i (Nu - 1)) (\<lambda>a2.
     bindE (subvec u i (Nu - 1)) (\<lambda>u2.
     bindE (rowcol a1 u1) (\<lambda>p1.
     bindE (rowcol a2 u2) (\<lambda>p2. Inr (p1 + p2))))))))"

definition GSsolveb_node ::
  "(vec \<Rightarrow> Fun1D) \<Rightarrow> vec \<Rightarrow> vec \<Rightarrow> mat \<Rightarrow> uword \<Rightarrow> vec \<Rightarrow> uword \<Rightarrow> error + vec" where
  "GSsolveb_node FunSCNL1D b M A Nu u i =
     bindE (GSsolveb_currA A u Nu i) (\<lambda>currA.
     bindE (elt b i) (\<lambda>bi.
     bindE (elt2 A i i) (\<lambda>aii.
     bindE (elt M i) (\<lambda>mi.
     bindE (elt u i) (\<lambda>ui.
       (let ci = currA + bi;
            nfun = FunSCNL1D [ci, aii, mi]
        in Inr (u[unat i := NWTsolve1D nfun ui lit_1e_6 10])))))))"

text \<open>
  The counter is unsigned, so the test \<^verbatim>\<open>i>=0\<close> of line 204 is kept as it is written and
  \<^verbatim>\<open>i--\<close> wraps at 0. The loop need not end: the result is an option, \<open>None\<close> when the
  sweep runs forever.
\<close>

partial_function (option) GSsolveb_loop ::
  "(vec \<Rightarrow> Fun1D) \<Rightarrow> vec \<Rightarrow> vec \<Rightarrow> mat \<Rightarrow> uvec \<Rightarrow> uword \<Rightarrow> uword \<Rightarrow> vec \<Rightarrow> (error + vec) option"
  where
  "GSsolveb_loop FunSCNL1D b M A freeNode Nu i u =
     (if 0 \<le> i then
        (if find_eq freeNode (unat i) \<noteq> [] then
           (case GSsolveb_node FunSCNL1D b M A Nu u i of
              Inl e \<Rightarrow> Some (Inl e)
            | Inr u' \<Rightarrow> GSsolveb_loop FunSCNL1D b M A freeNode Nu (i - 1) u')
         else GSsolveb_loop FunSCNL1D b M A freeNode Nu (i - 1) u)
      else Some (Inr u))"

definition GSsolveb ::
  "(vec \<Rightarrow> Fun1D) \<Rightarrow> vec \<Rightarrow> vec \<Rightarrow> nat \<Rightarrow> vec \<Rightarrow> mat \<Rightarrow> double \<Rightarrow> uvec \<Rightarrow> (error + vec) option"
  where
  "GSsolveb FunSCNL1D b u maxitr M A tol freeNode =
     (let Nu = (of_nat (length u) :: uword)
      in GSsolveb_loop FunSCNL1D b M A freeNode Nu (Nu - 2) u)"

section \<open>The mesh and the code that is not in the sources\<close>

text \<open>
  The fields of \<^verbatim>\<open>MeshMG\<close> that the solver reads: node coordinates (one row per node),
  the connectivity table (one row of three node indices per element), element areas, the
  stiffness and mass matrices, and the free and boundary index sets.
\<close>

record MeshMG =
  node :: mat
  elem :: "nat list list"
  area :: vec
  stiffness :: mat
  mass :: mat
  freeNode :: uvec
  bdNode :: uvec

text \<open>
  The headers of the mesh and of the function classes are not part of the sources. What the
  constructor uses of them is a parameter: the mesh that \<^verbatim>\<open>MeshMG msh(meshprops)\<close> and
  \<^verbatim>\<open>msh.uniformrefine()\<close> produce, the evaluators behind the pointers \<^verbatim>\<open>pde\<close>
  (\<^verbatim>\<open>FunZeros\<close>), \<^verbatim>\<open>bdfun\<close> (\<^verbatim>\<open>FunBoltz\<close>) and \<^verbatim>\<open>pdenl\<close> (\<^verbatim>\<open>FunSCNL\<close>), the
  constructor of \<^verbatim>\<open>FunSCNL1D\<close>, and Armadillo's \<^verbatim>\<open>solve\<close>.
\<close>

record External =
  MeshMG_refined :: "vec \<Rightarrow> MeshMG"
  pde_evalF :: "mat \<Rightarrow> vec"
  bdfun_evalF :: "mat \<Rightarrow> vec"
  pdenl_evalF :: "vec \<Rightarrow> vec"
  pdenl_evalDF :: "vec \<Rightarrow> vec"
  FunSCNL1D_ctor :: "vec \<Rightarrow> Fun1D"
  arma_solve :: "mat \<Rightarrow> vec \<Rightarrow> error + vec"

section \<open>Vector and matrix operations\<close>

text \<open>\<^verbatim>\<open>zeros<vec>(N)\<close>.\<close>

definition zeros :: "nat \<Rightarrow> vec" where
  "zeros N = replicate N 0"

text \<open>Elementwise \<^verbatim>\<open>+\<close>, \<^verbatim>\<open>-\<close> and \<^verbatim>\<open>%\<close> of two vectors: the sizes must agree.\<close>

definition vadd :: "vec \<Rightarrow> vec \<Rightarrow> error + vec" where
  "vadd x y = (if length x = length y then Inr (map2 (+) x y) else Inl LogicError)"

definition vsub :: "vec \<Rightarrow> vec \<Rightarrow> error + vec" where
  "vsub x y = (if length x = length y then Inr (map2 (-) x y) else Inl LogicError)"

definition vmul :: "vec \<Rightarrow> vec \<Rightarrow> error + vec" where
  "vmul x y = (if length x = length y then Inr (map2 (*) x y) else Inl LogicError)"

definition vdiv :: "vec \<Rightarrow> double \<Rightarrow> vec" where
  "vdiv x c = map (\<lambda>a. a / c) x"

definition madd :: "mat \<Rightarrow> mat \<Rightarrow> error + mat" where
  "madd X Y =
     (if length X = length Y \<and> list_all2 (\<lambda>r s. length r = length s) X Y
      then Inr (map2 (map2 (+)) X Y) else Inl LogicError)"

definition mdiv :: "mat \<Rightarrow> double \<Rightarrow> mat" where
  "mdiv X c = map (\<lambda>r. map (\<lambda>a. a / c) r) X"

text \<open>\<open>A * u\<close>: every row of \<open>A\<close> must be as long as \<open>u\<close>.\<close>

definition matvec :: "mat \<Rightarrow> vec \<Rightarrow> error + vec" where
  "matvec A u =
     (if list_all (\<lambda>r. length r = length u) A then Inr (map (\<lambda>r. dot r u) A)
      else Inl LogicError)"

text \<open>\<^verbatim>\<open>X.rows(idx)\<close> for an index vector: the rows (or entries) at \<open>idx\<close>, each index checked.\<close>

definition rows_at :: "'a list \<Rightarrow> uvec \<Rightarrow> error + 'a list" where
  "rows_at X idx =
     (if list_all (\<lambda>i. i < length X) idx then Inr (map (\<lambda>i. X ! i) idx) else Inl LogicError)"

text \<open>
  \<^verbatim>\<open>u.rows(idx) = vals\<close>: as many values as indices, every index inside \<open>u\<close>; the entries
  are written one after the other.
\<close>

definition set_rows :: "vec \<Rightarrow> uvec \<Rightarrow> vec \<Rightarrow> error + vec" where
  "set_rows u idx vals =
     (if length idx = length vals \<and> list_all (\<lambda>i. i < length u) idx
      then Inr (fold (\<lambda>(i, v) w. w[i := v]) (zip idx vals) u) else Inl LogicError)"

text \<open>\<^verbatim>\<open>E.col(k)\<close> and \<^verbatim>\<open>vectorise(E)\<close> (column after column) of the connectivity table.\<close>

definition col :: "nat list list \<Rightarrow> nat \<Rightarrow> error + uvec" where
  "col E k = (if list_all (\<lambda>r. k < length r) E then Inr (map (\<lambda>r. r ! k) E) else Inl LogicError)"

definition n_cols :: "'a list list \<Rightarrow> nat" where
  "n_cols X = (case X of [] \<Rightarrow> 0 | r # _ \<Rightarrow> length r)"

definition vectorise :: "nat list list \<Rightarrow> uvec" where
  "vectorise E = concat (map (\<lambda>k. map (\<lambda>r. r ! k) E) [0..<n_cols E])"

text \<open>\<^verbatim>\<open>M.diag()\<close>, \<^verbatim>\<open>diagmat(v)\<close> and \<^verbatim>\<open>B.submat(ri, ci)\<close>.\<close>

definition diag :: "mat \<Rightarrow> vec" where
  "diag X = map (\<lambda>i. X ! i ! i) [0..<min (length X) (n_cols X)]"

definition diagmat :: "vec \<Rightarrow> mat" where
  "diagmat v = map (\<lambda>i. (replicate (length v) 0)[i := v ! i]) [0..<length v]"

definition submat :: "mat \<Rightarrow> uvec \<Rightarrow> uvec \<Rightarrow> error + mat" where
  "submat B ri ci =
     (if list_all (\<lambda>i. i < length B) ri \<and> list_all (\<lambda>j. j < n_cols B) ci
      then Inr (map (\<lambda>i. map (\<lambda>j. B ! i ! j) ci) ri) else Inl LogicError)"

text \<open>\<^verbatim>\<open>norm(r)\<close>, the Euclidean norm: the root of the accumulated squares.\<close>

definition norm2 :: "vec \<Rightarrow> double" where
  "norm2 r = dsqrt (sum_vec (map (\<lambda>x. x * x) r))"

section \<open>calcRHS (lines 94-112)\<close>

text \<open>
  Lines 98-100 have one shape: the rows of \<open>node\<close> at two columns of \<open>elem\<close>, added and
  halved. Lines 102-104 have one shape: the areas times the sum of \<^verbatim>\<open>pde->evalF\<close> at two
  midpoint tables, divided by 6.
\<close>

definition midpoints :: "MeshMG \<Rightarrow> nat \<Rightarrow> nat \<Rightarrow> error + mat" where
  "midpoints mesh j k =
     bindE (col (elem mesh) j) (\<lambda>cj.
     bindE (rows_at (node mesh) cj) (\<lambda>nj.
     bindE (col (elem mesh) k) (\<lambda>ck.
     bindE (rows_at (node mesh) ck) (\<lambda>nk.
     bindE (madd nj nk) (\<lambda>s. Inr (mdiv s (Fin 2)))))))"

definition loadpart :: "(mat \<Rightarrow> vec) \<Rightarrow> MeshMG \<Rightarrow> mat \<Rightarrow> mat \<Rightarrow> error + vec" where
  "loadpart pde mesh midA midB =
     bindE (vadd (pde midA) (pde midB)) (\<lambda>f.
     bindE (vmul (area mesh) f) (\<lambda>af. Inr (vdiv af (Fin 6))))"

definition calcRHS :: "(mat \<Rightarrow> vec) \<Rightarrow> MeshMG \<Rightarrow> error + vec" where
  "calcRHS pde mesh =
     bindE (midpoints mesh 1 2) (\<lambda>mid1.
     bindE (midpoints mesh 2 0) (\<lambda>mid2.
     bindE (midpoints mesh 0 1) (\<lambda>mid3.
     bindE (loadpart pde mesh mid2 mid3) (\<lambda>bt1.
     bindE (loadpart pde mesh mid3 mid1) (\<lambda>bt2.
     bindE (loadpart pde mesh mid1 mid2) (\<lambda>bt3.
       (let bt12 = bt1 @ bt2;
            bts = bt12 @ bt3;
            elemv = vectorise (elem mesh)
        in accumArray elemv bts (length (node mesh)))))))))"

section \<open>The constructor (lines 39-87)\<close>

text \<open>
  The residual \<^verbatim>\<open>((A*u)+(Mv%fu)-b).rows(freeNode)\<close> of lines 65-67 and 74-75 (and of
  lines 157-158 and 169-170 of \<open>NWTsolve\<close>), with \<open>fu\<close> as it is passed.
\<close>

definition residual_free :: "mat \<Rightarrow> vec \<Rightarrow> vec \<Rightarrow> vec \<Rightarrow> uvec \<Rightarrow> vec \<Rightarrow> error + vec" where
  "residual_free A Mv fu b fN u =
     bindE (matvec A u) (\<lambda>Au.
     bindE (vmul Mv fu) (\<lambda>Mf.
     bindE (vadd Au Mf) (\<lambda>s.
     bindE (vsub s b) (\<lambda>residual. rows_at residual fN))))"

text \<open>Lines 51 and 56: the zero vector with the boundary values written into it.\<close>

definition Driver_init :: "External \<Rightarrow> MeshMG \<Rightarrow> error + vec" where
  "Driver_init ext mesh =
     bindE (rows_at (node mesh) (bdNode mesh)) (\<lambda>X.
       set_rows (zeros (length (node mesh))) (bdNode mesh) (bdfun_evalF ext X))"

text \<open>
  Lines 72-76, one pass of the outer loop: the two sweeps, then the residual with the
  \<open>fu\<close> of line 64 and its norm. The backward sweep may not return.
\<close>

definition Driver_body ::
  "(vec \<Rightarrow> Fun1D) \<Rightarrow> vec \<Rightarrow> vec \<Rightarrow> mat \<Rightarrow> vec \<Rightarrow> uvec \<Rightarrow> vec \<Rightarrow> (error + vec \<times> double) option"
  where
  "Driver_body FunSCNL1D b Mv A fu fN u =
     (case GSsolve FunSCNL1D b u 10 Mv A lit_1e_6 fN of
        Inl e \<Rightarrow> Some (Inl e)
      | Inr u1 \<Rightarrow>
          (case GSsolveb FunSCNL1D b u1 10 Mv A lit_1e_6 fN of
             None \<Rightarrow> None
           | Some (Inl e) \<Rightarrow> Some (Inl e)
           | Some (Inr u2) \<Rightarrow>
               Some (bindE (residual_free A Mv fu b fN u2) (\<lambda>r. Inr (u2, norm2 r)))))"

function Driver_loop ::
  "(vec \<Rightarrow> Fun1D) \<Rightarrow> vec \<Rightarrow> vec \<Rightarrow> mat \<Rightarrow> vec \<Rightarrow> uvec \<Rightarrow> double \<Rightarrow> nat \<Rightarrow> double \<Rightarrow> vec
     \<Rightarrow> (error + vec) option" where
  "Driver_loop FunSCNL1D b Mv A fu fN tol k err u =
     (if k < 10 \<and> tol < err then
        (case Driver_body FunSCNL1D b Mv A fu fN u of
           None \<Rightarrow> None
         | Some (Inl e) \<Rightarrow> Some (Inl e)
         | Some (Inr ue) \<Rightarrow> Driver_loop FunSCNL1D b Mv A fu fN tol (k + 1) (snd ue) (fst ue))
      else Some (Inr u))"
  by pat_completeness auto
termination
  by (relation "measure (\<lambda>(FunSCNL1D, b, Mv, A, fu, fN, tol, k, err, u). 10 - k)") auto

text \<open>
  The constructor. Its second argument, the function name, is not read: the three
  evaluators are fixed in lines 44-46. The result is the solution vector \<open>u\<close> of the object.
\<close>

definition FiniteElemNL :: "External \<Rightarrow> vec \<Rightarrow> string \<Rightarrow> (error + vec) option" where
  "FiniteElemNL ext meshprops funname =
     (let mesh = MeshMG_refined ext meshprops;
          prep =
            bindE (calcRHS (pde_evalF ext) mesh) (\<lambda>b.
            bindE (Driver_init ext mesh) (\<lambda>u.
              (let A = stiffness mesh;
                   M = mass mesh;
                   Mv = diag M;
                   fu = pdenl_evalF ext u
               in bindE (residual_free A Mv fu b (freeNode mesh) u) (\<lambda>r.
                    Inr (b, u, A, Mv, fu, r)))))
      in case prep of
           Inl e \<Rightarrow> Some (Inl e)
         | Inr (b, u, A, Mv, fu, r) \<Rightarrow>
             (let tol = lit_1e_6 * norm2 r;
                  err = Fin 2 * tol
              in Driver_loop (FunSCNL1D_ctor ext) b Mv A fu (freeNode mesh) tol 0 err u))"

section \<open>NWTsolve (lines 151-177)\<close>

text \<open>Lines 163-171, one pass of the loop: the new \<open>u\<close>, residual and error.\<close>

definition NWTsolve_step ::
  "External \<Rightarrow> vec \<Rightarrow> vec \<Rightarrow> mat \<Rightarrow> uvec \<Rightarrow> vec \<Rightarrow> vec \<Rightarrow> error + vec \<times> vec \<times> double" where
  "NWTsolve_step ext b M A fN r u =
     bindE (vmul M (pdenl_evalDF ext u)) (\<lambda>Df.
       (let Dfm = diagmat Df
        in bindE (madd A Dfm) (\<lambda>B.
           bindE (submat B fN fN) (\<lambda>Bff.
           bindE (arma_solve ext Bff r) (\<lambda>e.
           bindE (rows_at u fN) (\<lambda>uf.
           bindE (vsub uf e) (\<lambda>unew.
           bindE (set_rows u fN unew) (\<lambda>u'.
             (let fu = pdenl_evalF ext u'
              in bindE (residual_free A M fu b fN u') (\<lambda>r'.
                   Inr (u', r', norm2 r')))))))))))"

function NWTsolve_loop ::
  "External \<Rightarrow> vec \<Rightarrow> vec \<Rightarrow> mat \<Rightarrow> uvec \<Rightarrow> double \<Rightarrow> nat \<Rightarrow> nat \<Rightarrow> double \<Rightarrow> vec \<Rightarrow> vec
     \<Rightarrow> error + vec" where
  "NWTsolve_loop ext b M A fN tol maxitr k err r u =
     (if k < maxitr \<and> tol < err then
        (case NWTsolve_step ext b M A fN r u of
           Inl e \<Rightarrow> Inl e
         | Inr s \<Rightarrow>
             NWTsolve_loop ext b M A fN tol maxitr (k + 1) (snd (snd s)) (fst (snd s)) (fst s))
      else Inr u)"
  by pat_completeness auto
termination
  by (relation "measure (\<lambda>(ext, b, M, A, fN, tol, maxitr, k, err, r, u). maxitr - k)") auto

definition NWTsolve ::
  "External \<Rightarrow> vec \<Rightarrow> vec \<Rightarrow> nat \<Rightarrow> vec \<Rightarrow> mat \<Rightarrow> double \<Rightarrow> uvec \<Rightarrow> error + vec" where
  "NWTsolve ext b u maxitr M A tol fN =
     (let fu = pdenl_evalF ext u
      in bindE (residual_free A M fu b fN u) (\<lambda>r.
           (let tol' = tol * norm2 r;
                err = Fin 2 * tol'
            in NWTsolve_loop ext b M A fN tol' maxitr 0 err r u)))"

section \<open>The backward sweep, pass by pass\<close>

text \<open>
  The counter and the vector that the loop of \<open>GSsolveb\<close> holds after its first \<open>n\<close> passes
  (or the exception raised in one of them): the states that a sweep which does not return
  goes through.
\<close>

fun GSsolveb_iter ::
  "nat \<Rightarrow> (vec \<Rightarrow> Fun1D) \<Rightarrow> vec \<Rightarrow> vec \<Rightarrow> mat \<Rightarrow> uvec \<Rightarrow> uword \<Rightarrow> uword \<Rightarrow> vec
     \<Rightarrow> error + uword \<times> vec" where
  "GSsolveb_iter 0 FunSCNL1D b M A fN Nu i u = Inr (i, u)"
| "GSsolveb_iter (Suc n) FunSCNL1D b M A fN Nu i u =
     (if 0 \<le> i then
        (if find_eq fN (unat i) \<noteq> [] then
           (case GSsolveb_node FunSCNL1D b M A Nu u i of
              Inl e \<Rightarrow> Inl e
            | Inr u' \<Rightarrow> GSsolveb_iter n FunSCNL1D b M A fN Nu (i - 1) u')
         else GSsolveb_iter n FunSCNL1D b M A fN Nu (i - 1) u)
      else Inr (i, u))"

section \<open>Folding a partial update over a list of indices\<close>

text \<open>The updates \<open>f s x\<close> for the \<open>x\<close> of a list, from left to right, up to the first error.\<close>

fun foldE :: "('s \<Rightarrow> 'a \<Rightarrow> error + 's) \<Rightarrow> 'a list \<Rightarrow> 's \<Rightarrow> error + 's" where
  "foldE f [] s = Inr s"
| "foldE f (x # xs) s = (case f s x of Inl e \<Rightarrow> Inl e | Inr s' \<Rightarrow> foldE f xs s')"

section \<open>The off-diagonal contribution as the specification words it\<close>

text \<open>
  From the specification, not from the code: the sum of \<open>A(i,j) * u(j)\<close> over the columns
  \<open>j\<close> other than \<open>i\<close>, on doubles. The sweeps are compared with it.
\<close>

definition offdiag :: "mat \<Rightarrow> vec \<Rightarrow> nat \<Rightarrow> double" where
  "offdiag A u i =
     sum_vec (map (\<lambda>j. A ! i ! j * u ! j) (filter (\<lambda>j. j \<noteq> i) [0..<length u]))"

section \<open>A small system for concrete runs\<close>

text \<open>
  A scalar problem for the parameters \<open>[ci, aii, mi]\<close> with a linear residual
  \<open>aii * x + ci\<close> (Newton's method solves it in one step), a stiffness matrix on three
  nodes, and vectors for them.
\<close>

definition lin1D :: "vec \<Rightarrow> Fun1D" where
  "lin1D pars = \<lparr>evalF = (\<lambda>x. pars ! 1 * x + pars ! 0), evalDF = (\<lambda>x. pars ! 1)\<rparr>"

definition A3 :: mat where
  "A3 = [[Fin 2, Fin 1, Fin 0], [Fin 1, Fin 2, Fin 1], [Fin 0, Fin 1, Fin 2]]"

definition u3 :: vec where
  "u3 = [Fin 1, Fin 5, Fin 3]"

definition b3 :: vec where
  "b3 = [Fin 0, Fin 0, Fin 0]"

definition M3 :: vec where
  "M3 = [Fin 1, Fin 1, Fin 1]"

text \<open>
  The unit square cut into four triangles around its centre: corners 0, 1, 3, 4 on the
  boundary, the centre 2 free, with the stiffness matrix of the Laplacian on it and a
  diagonal mass matrix. The stand-ins for the code outside the sources: a zero source,
  boundary data \<open>x + y\<close>, the reaction term \<open>x^3\<close>, the scalar problem \<open>lin1D\<close>, and a
  solver for systems of one unknown.
\<close>

definition sq5 :: MeshMG where
  "sq5 = \<lparr>node = [[Fin 0, Fin 0], [Fin 1, Fin 0], [Fin (1 / 2), Fin (1 / 2)],
                  [Fin 0, Fin 1], [Fin 1, Fin 1]],
          elem = [[0, 1, 2], [1, 4, 2], [4, 3, 2], [3, 0, 2]],
          area = [Fin (1 / 4), Fin (1 / 4), Fin (1 / 4), Fin (1 / 4)],
          stiffness = [[Fin 1, Fin 0, Fin (- 1), Fin 0, Fin 0],
                       [Fin 0, Fin 1, Fin (- 1), Fin 0, Fin 0],
                       [Fin (- 1), Fin (- 1), Fin 4, Fin (- 1), Fin (- 1)],
                       [Fin 0, Fin 0, Fin (- 1), Fin 1, Fin 0],
                       [Fin 0, Fin 0, Fin (- 1), Fin 0, Fin 1]],
          mass = [[Fin (1 / 8), Fin 0, Fin 0, Fin 0, Fin 0],
                  [Fin 0, Fin (1 / 8), Fin 0, Fin 0, Fin 0],
                  [Fin 0, Fin 0, Fin (1 / 4), Fin 0, Fin 0],
                  [Fin 0, Fin 0, Fin 0, Fin (1 / 8), Fin 0],
                  [Fin 0, Fin 0, Fin 0, Fin 0, Fin (1 / 8)]],
          freeNode = [2],
          bdNode = [0, 1, 3, 4]\<rparr>"

definition solve1 :: "mat \<Rightarrow> vec \<Rightarrow> error + vec" where
  "solve1 B r = (case (B, r) of ([[a]], [c]) \<Rightarrow> Inr [c / a] | _ \<Rightarrow> Inl RuntimeError)"

definition ext5 :: External where
  "ext5 = \<lparr>MeshMG_refined = (\<lambda>meshprops. sq5),
           pde_evalF = map (\<lambda>p. Fin 0),
           bdfun_evalF = map (\<lambda>p. p ! 0 + p ! 1),
           pdenl_evalF = map (\<lambda>x. x * x * x),
           pdenl_evalDF = map (\<lambda>x. Fin 3 * x * x),
           FunSCNL1D_ctor = lin1D,
           arma_solve = solve1\<rparr>"

text \<open>The same with the boundary data 0.\<close>

definition ext0 :: External where
  "ext0 = ext5\<lparr>bdfun_evalF := map (\<lambda>p. Fin 0)\<rparr>"

section \<open>The load vector as the specification words it\<close>

text \<open>
  From the specification (section 4.2), not from the code, for a source function \<open>g\<close> on
  points. For element \<open>t\<close> with vertices \<open>0, 1, 2\<close>, \<open>edge_mid mesh t j\<close> is the midpoint of
  the edge opposite vertex \<open>j\<close>: the average of the coordinates of the other two
  vertices. Vertex \<open>k\<close> receives the area times the sum of \<open>g\<close> at the midpoints of the two
  edges that meet in it, divided by 6. The contributions, all of vertex 0, then of vertex
  1, then of vertex 2, are summed by key against the connectivity table in the same order.
  The numbers are doubles: every operation of the formulas is rounded, and a sum by key
  is the \<^verbatim>\<open>sum\<close> of the values in the order of their positions.
\<close>

definition midpoint :: "vec \<Rightarrow> vec \<Rightarrow> vec" where
  "midpoint p q = map2 (\<lambda>x y. (x + y) / Fin 2) p q"

definition edge_mid :: "MeshMG \<Rightarrow> nat \<Rightarrow> nat \<Rightarrow> vec" where
  "edge_mid mesh t j =
     midpoint (node mesh ! (elem mesh ! t ! ((j + 1) mod 3)))
              (node mesh ! (elem mesh ! t ! ((j + 2) mod 3)))"

definition vertex_load :: "(vec \<Rightarrow> double) \<Rightarrow> MeshMG \<Rightarrow> nat \<Rightarrow> nat \<Rightarrow> double" where
  "vertex_load g mesh k t =
     area mesh ! t * (g (edge_mid mesh t ((k + 1) mod 3)) + g (edge_mid mesh t ((k + 2) mod 3)))
       / Fin 6"

definition calcRHS_spec :: "(vec \<Rightarrow> double) \<Rightarrow> MeshMG \<Rightarrow> vec" where
  "calcRHS_spec g mesh =
     (let T = length (elem mesh);
          keys = concat (map (\<lambda>k. map (\<lambda>t. elem mesh ! t ! k) [0..<T]) [0, 1, 2]);
          vals = concat (map (\<lambda>k. map (\<lambda>t. vertex_load g mesh k t) [0..<T]) [0, 1, 2])
      in map (\<lambda>i. sum_vec (map snd (filter (\<lambda>kv. fst kv = i) (zip keys vals))))
           [0..<length (node mesh)])"

text \<open>
  A mesh as the solver expects it: every element has three vertices, each the index of a
  node; every node has two coordinates; there is one area per element.
\<close>

definition wf_mesh :: "MeshMG \<Rightarrow> bool" where
  "wf_mesh mesh \<longleftrightarrow>
     list_all (\<lambda>r. length r = 3 \<and> list_all (\<lambda>v. v < length (node mesh)) r) (elem mesh) \<and>
     list_all (\<lambda>p. length p = 2) (node mesh) \<and>
     length (area mesh) = length (elem mesh)"

section \<open>Rounding: the numbers that arithmetic leaves as they are\<close>

lemma rhe_of_int: "rhe (of_int n) = n"
  by (simp add: rhe_def)

lemma rhe_bounds: "\<lfloor>x\<rfloor> \<le> rhe x \<and> rhe x \<le> \<lceil>x\<rceil>"
  unfolding rhe_def Let_def by (auto simp: ceiling_def) linarith+

lemma pow2_less_iff: "(2 :: real) powi m < 2 powi n \<longleftrightarrow> m < n"
proof
  assume l: "(2 :: real) powi m < 2 powi n"
  show "m < n"
  proof (rule ccontr)
    assume "\<not> m < n"
    then have "(2 :: real) powi n \<le> 2 powi m"
      by (intro power_int_increasing) simp_all
    with l show False by simp
  qed
next
  assume "m < n"
  then show "(2 :: real) powi m < 2 powi n"
    by (intro power_int_strict_increasing) simp_all
qed

lemma bexp_pow_le: "bexp n x = - 1022 \<or> 2 powi (bexp n x) \<le> x"
  by (induction n) simp_all

text \<open>The binade that \<open>bexp\<close> finds is the one that holds \<open>x\<close>.\<close>

lemma bexp_value:
  "- 1022 \<le> e \<Longrightarrow> e \<le> int n - 1022 \<Longrightarrow> e = - 1022 \<or> 2 powi e \<le> x \<Longrightarrow> x < 2 powi (e + 1) \<Longrightarrow>
   bexp n x = e"
proof (induction n)
  case 0
  then show ?case by simp
next
  case (Suc n)
  show ?case
  proof (cases "2 powi (int n - 1021) \<le> x")
    case True
    with Suc.prems(4) have "(2 :: real) powi (int n - 1021) < 2 powi (e + 1)" by simp
    then have "int n - 1021 < e + 1"
      by (simp only: pow2_less_iff)
    with Suc.prems(2) have "e = int n - 1021" by simp
    with True show ?thesis by simp
  next
    case False
    have "e \<le> int n - 1022"
    proof (rule ccontr)
      assume "\<not> e \<le> int n - 1022"
      with Suc.prems(2) have e: "e = int n - 1021" by simp
      with Suc.prems(1,3) False show False by auto
    qed
    from Suc.IH[OF Suc.prems(1) this Suc.prems(3,4)] False show ?thesis by simp
  qed
qed

lemma bexp_top: "2 powi 1023 \<le> x \<Longrightarrow> bexp 2045 x = 1023"
proof -
  assume a: "2 powi 1023 \<le> x"
  have "bexp (Suc 2044) x = 1023"
    unfolding bexp.simps using a by simp
  then show ?thesis by simp
qed

text \<open>
  A number \<open>m * 2^k\<close> with a significand \<open>m\<close> of at most 53 bits and an exponent in range is
  a binary64 number: rounding returns it.
\<close>

lemma fl_exact:
  assumes x: "x = of_int m * 2 powi k" and m: "m \<noteq> 0" "\<bar>m\<bar> < 2 ^ 53" and k: "- 1074 \<le> k"
    and b: "\<bar>x\<bar> < 2 ^ 1024"
  shows "fl x = Fin x"
proof -
  define e where "e = bexp 2045 \<bar>x\<bar> - 52"
  have ek: "e \<le> k"
  proof (cases "bexp 2045 \<bar>x\<bar> = - 1022")
    case True
    then show ?thesis using k by (simp add: e_def)
  next
    case False
    with bexp_pow_le[of 2045 "\<bar>x\<bar>"] have "2 powi (bexp 2045 \<bar>x\<bar>) \<le> \<bar>x\<bar>" by simp
    also have "\<bar>x\<bar> = of_int \<bar>m\<bar> * 2 powi k"
      by (simp add: x abs_mult power_int_abs)
    also have "\<dots> < 2 ^ 53 * 2 powi k"
    proof -
      have "(of_int \<bar>m\<bar> :: real) < of_int (2 ^ 53)"
        using m(2) by (simp only: of_int_less_iff)
      then show ?thesis by (intro mult_strict_right_mono) simp_all
    qed
    also have "\<dots> = 2 powi (53 + k)"
      by (simp add: power_int_add)
    finally have "bexp 2045 \<bar>x\<bar> < 53 + k"
      by (simp only: pow2_less_iff)
    then show ?thesis by (simp add: e_def)
  qed
  have q: "x / 2 powi e = of_int (m * 2 ^ nat (k - e))"
  proof -
    have "x / 2 powi e = of_int m * 2 powi (k - e)"
      by (simp add: x power_int_diff)
    also have "(2 :: real) powi (k - e) = 2 ^ nat (k - e)"
      using ek by (simp add: power_int_def)
    finally show ?thesis by simp
  qed
  have y: "of_int (rhe (x / 2 powi e)) * 2 powi e = x"
  proof -
    have "of_int (rhe (x / 2 powi e)) * 2 powi e = x / 2 powi e * 2 powi e"
      unfolding q rhe_of_int by (simp only: q[symmetric])
    also have "\<dots> = x" by simp
    finally show ?thesis .
  qed
  have x0: "x \<noteq> 0" using m(1) by (simp add: x)
  show ?thesis
    unfolding fl_def Let_def e_def[symmetric] y using b x0 by simp
qed

lemma fl_0 [simp]: "fl 0 = Fin 0"
  by (simp add: fl_def Let_def rhe_def)

lemma fl_int: "m \<noteq> 0 \<Longrightarrow> \<bar>m\<bar> < 2 ^ 53 \<Longrightarrow> fl (of_int m) = Fin (of_int m)"
proof -
  assume m: "m \<noteq> 0" "\<bar>m\<bar> < 2 ^ 53"
  have "\<bar>of_int m :: real\<bar> = of_int \<bar>m\<bar>" by simp
  also have "\<dots> < of_int (2 ^ 53)" using m(2) by (simp only: of_int_less_iff)
  also have "\<dots> < (2 :: real) ^ 1024" by simp
  finally show ?thesis
    using fl_exact[of "of_int m" m 0] m by simp
qed

lemma fl_frac:
  assumes m: "m \<noteq> 0" "\<bar>m\<bar> < 2 ^ 53" and j: "j \<le> 1074"
  shows "fl (of_int m / 2 ^ j) = Fin (of_int m / 2 ^ j)"
proof -
  have x: "(of_int m / 2 ^ j :: real) = of_int m * 2 powi (- int j)"
    by (simp add: power_int_minus field_simps)
  have "\<bar>of_int m / 2 ^ j :: real\<bar> = of_int \<bar>m\<bar> / 2 ^ j" by simp
  also have "\<dots> \<le> of_int \<bar>m\<bar>"
    by (simp add: field_simps mult_le_cancel_left1)
  also have "\<dots> < of_int (2 ^ 53)" using m(2) by (simp only: of_int_less_iff)
  also have "\<dots> < (2 :: real) ^ 1024" by simp
  finally show ?thesis
    using fl_exact[OF x m(1,2)] j by simp
qed

text \<open>The same as rewrite rules for the numbers of the concrete runs.\<close>

lemma fl_numeral [simp]: "numeral n < (2 :: int) ^ 53 \<Longrightarrow> fl (numeral n) = Fin (numeral n)"
  using fl_int[of "numeral n"] by simp

lemma fl_neg_numeral [simp]: "numeral n < (2 :: int) ^ 53 \<Longrightarrow> fl (- numeral n) = Fin (- numeral n)"
  using fl_int[of "- numeral n"] by simp

lemma fl_1 [simp]: "fl 1 = Fin 1"
  using fl_int[of 1] by simp

lemma fl_neg_1 [simp]: "fl (- 1) = Fin (- 1)"
  using fl_int[of "- 1"] by simp

lemma fl_num_div:
  assumes "numeral n < (2 :: int) ^ 53" "(numeral d :: real) = 2 ^ j" "j \<le> 1074"
  shows "fl (numeral n / numeral d) = Fin (numeral n / numeral d)"
    "fl (- (numeral n / numeral d)) = Fin (- (numeral n / numeral d))"
  using fl_frac[of "numeral n" j] fl_frac[of "- numeral n" j] assms
  by simp_all

lemma fl_one_div:
  assumes "(numeral d :: real) = 2 ^ j" "j \<le> 1074"
  shows "fl (1 / numeral d) = Fin (1 / numeral d)"
    "fl (- (1 / numeral d)) = Fin (- (1 / numeral d))"
  using fl_frac[of 1 j] fl_frac[of "- 1" j] assms
  by simp_all

lemma fl_div_2 [simp]:
  assumes "numeral n < (2 :: int) ^ 53"
  shows "fl (numeral n / 2) = Fin (numeral n / 2)"
    "fl (- (numeral n / 2)) = Fin (- (numeral n / 2))"
  using fl_num_div[OF assms, of "Num.Bit0 Num.One" 1] by simp_all

lemma fl_div_4 [simp]:
  assumes "numeral n < (2 :: int) ^ 53"
  shows "fl (numeral n / 4) = Fin (numeral n / 4)"
    "fl (- (numeral n / 4)) = Fin (- (numeral n / 4))"
  using fl_num_div[OF assms, of "Num.Bit0 (Num.Bit0 Num.One)" 2] by simp_all

lemma fl_div_8 [simp]:
  assumes "numeral n < (2 :: int) ^ 53"
  shows "fl (numeral n / 8) = Fin (numeral n / 8)"
    "fl (- (numeral n / 8)) = Fin (- (numeral n / 8))"
  using fl_num_div[OF assms, of "Num.Bit0 (Num.Bit0 (Num.Bit0 Num.One))" 3] by simp_all

lemma fl_div_16 [simp]:
  assumes "numeral n < (2 :: int) ^ 53"
  shows "fl (numeral n / 16) = Fin (numeral n / 16)"
    "fl (- (numeral n / 16)) = Fin (- (numeral n / 16))"
  using fl_num_div[OF assms, of "Num.Bit0 (Num.Bit0 (Num.Bit0 (Num.Bit0 Num.One)))" 4] by simp_all

lemma fl_div_32 [simp]:
  assumes "numeral n < (2 :: int) ^ 53"
  shows "fl (numeral n / 32) = Fin (numeral n / 32)"
    "fl (- (numeral n / 32)) = Fin (- (numeral n / 32))"
  using fl_num_div[OF assms, of "Num.Bit0 (Num.Bit0 (Num.Bit0 (Num.Bit0 (Num.Bit0 Num.One))))" 5]
  by simp_all

lemma fl_one_div_pow2 [simp]:
  "fl (1 / 2) = Fin (1 / 2)" "fl (- (1 / 2)) = Fin (- (1 / 2))"
  "fl (1 / 4) = Fin (1 / 4)" "fl (- (1 / 4)) = Fin (- (1 / 4))"
  "fl (1 / 8) = Fin (1 / 8)" "fl (- (1 / 8)) = Fin (- (1 / 8))"
  "fl (1 / 16) = Fin (1 / 16)" "fl (- (1 / 16)) = Fin (- (1 / 16))"
  "fl (1 / 32) = Fin (1 / 32)" "fl (- (1 / 32)) = Fin (- (1 / 32))"
  using fl_one_div[of "Num.Bit0 Num.One" 1] fl_one_div[of "Num.Bit0 (Num.Bit0 Num.One)" 2]
    fl_one_div[of "Num.Bit0 (Num.Bit0 (Num.Bit0 Num.One))" 3]
    fl_one_div[of "Num.Bit0 (Num.Bit0 (Num.Bit0 (Num.Bit0 Num.One)))" 4]
    fl_one_div[of "Num.Bit0 (Num.Bit0 (Num.Bit0 (Num.Bit0 (Num.Bit0 Num.One))))" 5]
  by simp_all

section \<open>Rounding: the numbers that arithmetic changes\<close>

text \<open>
  The value of \<open>fl x\<close> from the binade \<open>e\<close> of \<open>x\<close> and the significand \<open>m\<close> that \<open>x\<close> rounds
  to.
\<close>

lemma fl_round:
  assumes e: "- 1022 \<le> e" "e \<le> 1023" and lo: "e = - 1022 \<or> 2 powi e \<le> \<bar>x\<bar>"
    and hi: "\<bar>x\<bar> < 2 powi (e + 1)"
    and m: "rhe (x / 2 powi (e - 52)) = m" "m \<noteq> 0"
    and y: "\<bar>of_int m * 2 powi (e - 52)\<bar> < (2 :: real) ^ 1024"
  shows "fl x = Fin (of_int m * 2 powi (e - 52))"
proof -
  have b: "bexp 2045 \<bar>x\<bar> = e"
    using bexp_value[OF e(1) _ lo hi] e(2) by simp
  have "of_int m * 2 powi (e - 52) \<noteq> (0 :: real)"
    using m(2) by simp
  then show ?thesis
    unfolding fl_def Let_def b m(1) using y by simp
qed

text \<open>From \<open>2^1024\<close> on, every number rounds to an infinity.\<close>

lemma fl_overflow:
  assumes "2 ^ 1024 \<le> \<bar>x\<bar>"
  shows "fl x = (if 0 < x then PInf else NInf)"
proof -
  have "(2 :: real) powi 1023 \<le> 2 ^ 1024" by simp
  with assms have "2 powi 1023 \<le> \<bar>x\<bar>" by linarith
  then have b: "bexp 2045 \<bar>x\<bar> = 1023" by (rule bexp_top)
  let ?z = "x / 2 powi 971"
  have z: "(2 :: real) ^ 53 \<le> \<bar>?z\<bar>"
  proof -
    have "(2 :: real) ^ 53 * 2 powi 971 = 2 ^ 1024" by simp
    with assms show ?thesis by (simp add: abs_divide field_simps)
  qed
  have r: "(2 :: int) ^ 53 \<le> \<bar>rhe ?z\<bar>"
  proof (cases "0 \<le> ?z")
    case True
    with z have "of_int (2 ^ 53) \<le> ?z" by simp
    then have "2 ^ 53 \<le> \<lfloor>?z\<rfloor>" by (simp only: le_floor_iff)
    with rhe_bounds[of ?z] show ?thesis by linarith
  next
    case False
    with z have "?z \<le> of_int (- (2 ^ 53))" by simp
    then have "\<lceil>?z\<rceil> \<le> - (2 ^ 53)" by (simp only: ceiling_le_iff)
    with rhe_bounds[of ?z] show ?thesis by linarith
  qed
  have "(2 :: real) ^ 1024 = of_int (2 ^ 53) * 2 powi 971" by simp
  also have "\<dots> \<le> of_int \<bar>rhe ?z\<bar> * 2 powi 971"
    using r by (intro mult_right_mono) (simp_all only: of_int_le_iff zero_le_power_int zero_le_numeral)
  also have "\<dots> = \<bar>of_int (rhe ?z) * 2 powi 971\<bar>"
    by (simp add: abs_mult)
  finally show ?thesis
    unfolding fl_def Let_def b by simp
qed

text \<open>The literal \<^verbatim>\<open>1e-6\<close> is \<open>4722366482869645 * 2^-72\<close>, a little below \<open>10^-6\<close>.\<close>

lemma lit_1e_6_value: "lit_1e_6 = Fin (4722366482869645 / 2 ^ 72)"
proof -
  have r: "rhe (1 / 10 ^ 6 / 2 powi (- 20 - 52)) = 4722366482869645"
    by (simp add: rhe_def Let_def)
  have "fl (1 / 10 ^ 6) = Fin (of_int 4722366482869645 * 2 powi (- 20 - 52))"
    by (rule fl_round[OF _ _ _ _ r]) simp_all
  then show ?thesis by (simp add: lit_1e_6_def)
qed

text \<open>
  \<open>10^16 + 1\<close> lies halfway between two binary64 numbers and rounds to the even one;
  \<open>1/24\<close> rounds down; \<open>10^16\<close> and \<open>2^1023\<close> are binary64 numbers.
\<close>

lemma fl_tie: "fl (10 ^ 16 + 1) = Fin (10 ^ 16)"
proof -
  have r: "rhe ((10 ^ 16 + 1) / 2 powi (53 - 52)) = 5000000000000000"
    by (simp add: rhe_def Let_def)
  have "fl (10 ^ 16 + 1) = Fin (of_int 5000000000000000 * 2 powi (53 - 52))"
    by (rule fl_round[OF _ _ _ _ r]) simp_all
  then show ?thesis by simp
qed

lemma fl_24th: "fl (1 / 24) = Fin (6004799503160661 / 2 ^ 57)"
proof -
  have r: "rhe (1 / 24 / 2 powi (- 5 - 52)) = 6004799503160661"
    by (simp add: rhe_def Let_def)
  have "fl (1 / 24) = Fin (of_int 6004799503160661 * 2 powi (- 5 - 52))"
    by (rule fl_round[OF _ _ _ _ r]) simp_all
  then show ?thesis by simp
qed

lemma fl_10_16: "fl (10 ^ 16) = Fin (10 ^ 16)"
  using fl_exact[of "10 ^ 16" "5 ^ 16" 16] by simp

lemma fl_2_1023: "fl (2 ^ 1023) = Fin (2 ^ 1023)"
  using fl_exact[of "2 ^ 1023" 1 1023] by simp

section \<open>Sums of vectors\<close>

lemma sum_vec_Nil [simp]: "sum_vec [] = Fin 0"
  by (simp add: sum_vec_def zero_double_def)

lemma sum_vec_rounds: "sum_vec [Fin (10 ^ 16), Fin 1] = Fin (10 ^ 16)"
proof -
  have "sum_vec [Fin (10 ^ 16), Fin 1] = fl (10 ^ 16) + fl 1"
    unfolding sum_vec_def zero_double_def accumulate.simps plus_double.simps by simp
  also have "\<dots> = fl (10 ^ 16 + 1)"
    unfolding fl_10_16 fl_1 plus_double.simps ..
  finally show ?thesis unfolding fl_tie .
qed

lemma sum_vec_overflows: "sum_vec [Fin (2 ^ 1023), Fin (2 ^ 1023)] = PInf"
proof -
  have "sum_vec [Fin (2 ^ 1023), Fin (2 ^ 1023)] = fl (2 ^ 1023) + fl (2 ^ 1023)"
    unfolding sum_vec_def zero_double_def accumulate.simps plus_double.simps by simp
  also have "\<dots> = fl (2 ^ 1023 + 2 ^ 1023)"
    unfolding fl_2_1023 plus_double.simps ..
  also have "\<dots> = PInf"
    by (subst fl_overflow) simp_all
  finally show ?thesis .
qed


lemma lit_1e_6_scaled:
  "lit_1e_6 * Fin 4 = Fin (4722366482869645 / 2 ^ 70)"
  "Fin 2 * (lit_1e_6 * Fin 4) = Fin (4722366482869645 / 2 ^ 69)"
  "lit_1e_6 * Fin 0 = Fin 0"
proof -
  have a: "(4722366482869645 / 2 ^ 72 * 4 :: real) = of_int 4722366482869645 / 2 ^ 70" by simp
  show 1: "lit_1e_6 * Fin 4 = Fin (4722366482869645 / 2 ^ 70)"
    unfolding lit_1e_6_value times_double.simps a
    using fl_frac[of 4722366482869645 70] by simp
  have b: "(2 * (4722366482869645 / 2 ^ 70) :: real) = of_int 4722366482869645 / 2 ^ 69" by simp
  show "Fin 2 * (lit_1e_6 * Fin 4) = Fin (4722366482869645 / 2 ^ 69)"
    unfolding 1 times_double.simps b
    using fl_frac[of 4722366482869645 69] by simp
  show "lit_1e_6 * Fin 0 = Fin 0"
    by (simp add: lit_1e_6_value)
qed

lemma lit_1e_6_loop_test: "lit_1e_6 * Fin 4 < Fin 2 * (lit_1e_6 * Fin 4)"
  unfolding lit_1e_6_scaled(2) unfolding lit_1e_6_scaled(1) by simp

section \<open>accumArray: sums by key\<close>

lemma elem_at_find_eq:
  "length ar = length subs \<Longrightarrow>
   elem_at ar (find_eq subs j) = Inr (map (\<lambda>k. ar ! k) (find_eq subs j))"
  by (simp add: elem_at_def find_eq_def list_all_iff)

lemma find_eq_zip:
  assumes len: "length ar = length subs"
  shows "map (\<lambda>k. ar ! k) (find_eq subs j) = map snd (filter (\<lambda>kv. fst kv = j) (zip subs ar))"
proof -
  have z: "zip subs ar = map (\<lambda>k. (subs ! k, ar ! k)) [0..<length subs]"
    using len by (intro nth_equalityI) simp_all
  show ?thesis
    unfolding z find_eq_def by (simp add: filter_map comp_def)
qed

lemma find_eq_empty_iff: "find_eq subs j = [] \<longleftrightarrow> j \<notin> set subs"
  by (auto simp: find_eq_def filter_empty_conv in_set_conv_nth)

text \<open>
  The loop invariant: from counter \<open>i\<close> on, every entry is overwritten with the sum of the
  values at the positions of its key; the entries below \<open>i\<close> are left as they are.
\<close>

lemma accumArray_loop_ok:
  "length ar = length subs \<Longrightarrow> length S = N \<Longrightarrow>
   \<exists>S'. accumArray_loop subs ar N i S = Inr S' \<and> length S' = N \<and>
     (\<forall>j<N. S' ! j = (if i \<le> j then sum_vec (map (\<lambda>k. ar ! k) (find_eq subs j)) else S ! j))"
proof (induction subs ar N i S rule: accumArray_loop.induct)
  case (1 subs ar N i S)
  show ?case
  proof (cases "i < N")
    case False
    then show ?thesis using "1.prems" by simp
  next
    case True
    note lt = this
    show ?thesis
    proof (cases "find_eq subs i = []")
      case True
      from "1.IH"(2)[OF lt refl] True "1.prems"
      obtain S' where S': "accumArray_loop subs ar N (i + 1) (S[i := 0]) = Inr S'" "length S' = N"
        "\<forall>j<N. S' ! j = (if i + 1 \<le> j then sum_vec (map (\<lambda>k. ar ! k) (find_eq subs j))
                          else S[i := 0] ! j)"
        by auto
      have "accumArray_loop subs ar N i S = Inr S'"
        using lt True S'(1) by simp
      moreover have "\<forall>j<N. S' ! j =
          (if i \<le> j then sum_vec (map (\<lambda>k. ar ! k) (find_eq subs j)) else S ! j)"
      proof (intro allI impI)
        fix j assume j: "j < N"
        show "S' ! j = (if i \<le> j then sum_vec (map (\<lambda>k. ar ! k) (find_eq subs j)) else S ! j)"
        proof (cases "j = i")
          case True
          then show ?thesis using S'(3) j \<open>find_eq subs i = []\<close> "1.prems"
            by (simp add: zero_double_def)
        next
          case False
          then show ?thesis using S'(3) j by (cases "i < j") auto
        qed
      qed
      ultimately show ?thesis using S'(2) by blast
    next
      case False
      let ?spot = "map (\<lambda>k. ar ! k) (find_eq subs i)"
      have el: "elem_at ar (find_eq subs i) = Inr ?spot"
        using "1.prems" by (simp add: elem_at_find_eq)
      from "1.IH"(1)[OF lt refl False el] "1.prems"
      obtain S' where S': "accumArray_loop subs ar N (i + 1) (S[i := sum_vec ?spot]) = Inr S'"
        "length S' = N"
        "\<forall>j<N. S' ! j = (if i + 1 \<le> j then sum_vec (map (\<lambda>k. ar ! k) (find_eq subs j))
                          else S[i := sum_vec ?spot] ! j)"
        by auto
      have "accumArray_loop subs ar N i S = Inr S'"
        using lt False S'(1) el by simp
      moreover have "\<forall>j<N. S' ! j =
          (if i \<le> j then sum_vec (map (\<lambda>k. ar ! k) (find_eq subs j)) else S ! j)"
      proof (intro allI impI)
        fix j assume j: "j < N"
        show "S' ! j = (if i \<le> j then sum_vec (map (\<lambda>k. ar ! k) (find_eq subs j)) else S ! j)"
        proof (cases "j = i")
          case True
          then show ?thesis using S'(3) j "1.prems" by simp
        next
          case False
          then show ?thesis using S'(3) j by (cases "i < j") auto
        qed
      qed
      ultimately show ?thesis using S'(2) by blast
    qed
  qed
qed

lemma accumArray_entries:
  assumes len: "length ar = length subs"
  shows "\<exists>S. accumArray subs ar N = Inr S \<and> length S = N \<and>
     (\<forall>i<N. S ! i = sum_vec (map snd (filter (\<lambda>kv. fst kv = i) (zip subs ar))))"
proof -
  from accumArray_loop_ok[OF len, of "replicate N 0" N 0]
  obtain S where S: "accumArray_loop subs ar N 0 (replicate N 0) = Inr S" "length S = N"
    "\<forall>j<N. S ! j = sum_vec (map (\<lambda>k. ar ! k) (find_eq subs j))"
    by auto
  show ?thesis
    using S by (simp add: accumArray_def find_eq_zip[OF len])
qed

lemma accumArray_example:
  "accumArray [0, 2, 2, 1] [Fin 1, Fin 2, Fin 3, Fin 4] 4 = Inr [Fin 1, Fin 4, Fin 5, Fin 0]"
  by (simp add: accumArray_def find_eq_def elem_at_def zero_double_def sum_vec_def upt_rec
      numeral_nat)

lemma accumArray_loop_nokeys:
  "length S = N \<Longrightarrow> accumArray_loop [] ar N i S = Inr (take i S @ replicate (N - i) 0)"
proof (induction "[] :: nat list" ar N i S rule: accumArray_loop.induct)
  case (1 ar N i S)
  show ?case
  proof (cases "i < N")
    case True
    have "take (i + 1) (S[i := 0]) @ replicate (N - (i + 1)) 0 = take i S @ replicate (N - i) 0"
      using True "1.prems"
      by (simp add: take_Suc_conv_app_nth upd_conv_take_nth_drop replicate_app_Cons_same
          Suc_diff_Suc flip: replicate_Suc)
    then show ?thesis using True "1.hyps"(2)[OF True refl] "1.prems"
      by (simp add: find_eq_def)
  next
    case False
    then show ?thesis using "1.prems" by simp
  qed
qed

lemma accumArray_one_key: "accumArray [0, 0] [x, y] 1 = Inr [sum_vec [x, y]]"
  by (simp add: accumArray_def find_eq_def elem_at_def upt_rec)

lemma accumArray_rounds: "accumArray [0, 0] [Fin (10 ^ 16), Fin 1] 1 = Inr [Fin (10 ^ 16)]"
  unfolding accumArray_one_key sum_vec_rounds ..

lemma accumArray_overflows:
  "accumArray [0, 0] [Fin (2 ^ 1023), Fin (2 ^ 1023)] 1 = Inr [PInf]"
  unfolding accumArray_one_key sum_vec_overflows ..

text \<open>
  C6. For a key sequence \<open>subs\<close> and a parallel value sequence \<open>ar\<close>, \<open>accumArray\<close> returns a
  vector of length \<open>N\<close> whose entry \<open>i\<close> is the sum of the values whose key is \<open>i\<close>, taken in
  the order of their positions, and 0 when no key is \<open>i\<close>; equal keys add up. The sum is
  the one that \<^verbatim>\<open>sum\<close> computes on doubles (\<open>sum_vec\<close>), every addition rounded: keys
  \<open>[0,2,2,1]\<close> with values \<open>[1,2,3,4]\<close> and \<open>N = 4\<close> give \<open>[1,4,5,0]\<close>, no keys give the zero
  vector of length \<open>N\<close>, the values \<open>10^16\<close> and 1 under one key give \<open>10^16\<close>, and twice
  \<open>2^1023\<close> under one key gives infinity. (A key outside \<open>[0,N)\<close> would be ignored, so the
  theorem does not need the keys in range.)
\<close>

theorem accumArray_sums_by_key:
  "length ar = length subs \<Longrightarrow>
   (\<exists>S. accumArray subs ar N = Inr S \<and> length S = N \<and>
      (\<forall>i<N. S ! i = sum_vec (map snd (filter (\<lambda>kv. fst kv = i) (zip subs ar))) \<and>
             (i \<notin> set subs \<longrightarrow> S ! i = Fin 0))) \<and>
   accumArray [0, 2, 2, 1] [Fin 1, Fin 2, Fin 3, Fin 4] 4 = Inr [Fin 1, Fin 4, Fin 5, Fin 0] \<and>
   accumArray [] [] N = Inr (replicate N (Fin 0)) \<and>
   accumArray [0, 0] [Fin (10 ^ 16), Fin 1] 1 = Inr [Fin (10 ^ 16)] \<and>
   accumArray [0, 0] [Fin (2 ^ 1023), Fin (2 ^ 1023)] 1 = Inr [PInf]"
proof (intro conjI)
  assume len: "length ar = length subs"
  from accumArray_entries[OF len, of N]
  obtain S where S: "accumArray subs ar N = Inr S" "length S = N"
    "\<forall>i<N. S ! i = sum_vec (map snd (filter (\<lambda>kv. fst kv = i) (zip subs ar)))"
    by blast
  have "S ! i = Fin 0" if "i < N" "i \<notin> set subs" for i
  proof -
    have "filter (\<lambda>kv. fst kv = i) (zip subs ar) = []"
      using that(2) by (auto simp: filter_empty_conv dest: set_zip_leftD)
    then show ?thesis using S(3) that(1) by simp
  qed
  then show "\<exists>S. accumArray subs ar N = Inr S \<and> length S = N \<and>
      (\<forall>i<N. S ! i = sum_vec (map snd (filter (\<lambda>kv. fst kv = i) (zip subs ar))) \<and>
             (i \<notin> set subs \<longrightarrow> S ! i = Fin 0))"
    using S by blast
next
  show "accumArray [0, 2, 2, 1] [Fin 1, Fin 2, Fin 3, Fin 4] 4 = Inr [Fin 1, Fin 4, Fin 5, Fin 0]"
    by (rule accumArray_example)
next
  show "accumArray [] [] N = Inr (replicate N (Fin 0))"
    using accumArray_loop_nokeys[of "replicate N 0" N "[]" 0]
    by (simp add: accumArray_def zero_double_def del: accumArray_loop.simps)
next
  show "accumArray [0, 0] [Fin (10 ^ 16), Fin 1] 1 = Inr [Fin (10 ^ 16)]"
    by (rule accumArray_rounds)
next
  show "accumArray [0, 0] [Fin (2 ^ 1023), Fin (2 ^ 1023)] 1 = Inr [PInf]"
    by (rule accumArray_overflows)
qed

theorem accumArray_sums_by_key_witness:
  "length [Fin 10, Fin 20, Fin 30] = length [1, 0, 1 :: nat] \<and>
   (\<exists>S. accumArray [1, 0, 1] [Fin 10, Fin 20, Fin 30] 3 = Inr S \<and> length S = 3 \<and>
        S ! 0 = Fin 20 \<and> S ! 1 = Fin 40 \<and> S ! 2 = Fin 0)"
proof -
  have len: "length [Fin 10, Fin 20, Fin 30] = length [1, 0, 1 :: nat]" by simp
  from accumArray_sums_by_key[OF len, of 3]
  obtain S where S: "accumArray [1, 0, 1] [Fin 10, Fin 20, Fin 30] 3 = Inr S" "length S = 3"
    "\<forall>i<3. S ! i = sum_vec (map snd (filter (\<lambda>kv. fst kv = i)
        (zip [1, 0, 1] [Fin 10, Fin 20, Fin 30]))) \<and> (i \<notin> set [1, 0, 1 :: nat] \<longrightarrow> S ! i = Fin 0)"
    by blast
  have "S ! 0 = Fin 20" "S ! 1 = Fin 40" "S ! 2 = Fin 0"
    using S(3) by (simp_all add: zero_double_def sum_vec_def)
  then show ?thesis using S(1,2) len by blast
qed

section \<open>Facts about words, ranges and the checked accesses\<close>

lemma unat_succ_less:
  fixes i k :: "'a::len word"
  assumes "i < k"
  shows "unat (i + 1) = unat i + 1"
proof -
  have "unat i < unat k" using assms by (simp add: word_less_nat_alt)
  moreover have "unat k < 2 ^ LENGTH('a)" by (rule unsigned_less)
  ultimately have "unat i + 1 < 2 ^ LENGTH('a)" by arith
  then show ?thesis by (simp add: unat_word_ariths)
qed

lemma GSsolve_loop_fold:
  "GSsolve_loop F b M A fr Nu i u =
     foldE (\<lambda>v j. GSsolve_node F b M A Nu v (of_nat j))
       (filter (\<lambda>j. j \<in> set fr) [unat i ..< unat (Nu - 1)]) u"
proof (induction F b M A fr Nu i u rule: GSsolve_loop.induct)
  case (1 F b M A fr Nu i u)
  show ?case
  proof (cases "i < Nu - 1")
    case False
    then have "unat (Nu - 1) \<le> unat i"
      by (simp add: word_less_nat_alt)
    then show ?thesis using False by simp
  next
    case True
    have lt: "unat i < unat (Nu - 1)"
      using True by (simp add: word_less_nat_alt)
    have suc: "unat (i + 1) = Suc (unat i)"
      using unat_succ_less[OF True] by simp
    have upt: "[unat i ..< unat (Nu - 1)] = unat i # [unat (i + 1) ..< unat (Nu - 1)]"
      using lt suc by (simp add: upt_conv_Cons)
    show ?thesis
    proof (cases "unat i \<in> set fr")
      case False
      then have "find_eq fr (unat i) = []" by (simp add: find_eq_empty_iff)
      with "1.IH"(2)[OF True] True False upt show ?thesis
        by (simp del: GSsolve_loop.simps add: GSsolve_loop.simps[of F b M A fr Nu i u])
    next
      case mem: True
      then have ne: "find_eq fr (unat i) \<noteq> []" by (simp add: find_eq_empty_iff)
      show ?thesis
      proof (cases "GSsolve_node F b M A Nu u i")
        case (Inl e)
        with True ne mem upt show ?thesis
          by (simp del: GSsolve_loop.simps add: GSsolve_loop.simps[of F b M A fr Nu i u])
      next
        case (Inr u')
        with "1.IH"(1)[OF True ne Inr] True ne mem upt show ?thesis
          by (simp del: GSsolve_loop.simps add: GSsolve_loop.simps[of F b M A fr Nu i u])
      qed
    qed
  qed
qed

lemma GSsolve_node_frame:
  assumes "GSsolve_node F b M A Nu u i = Inr u'"
  shows "length u' = length u \<and> (\<forall>j. j \<noteq> unat i \<longrightarrow> u' ! j = u ! j)"
  using assms
  by (auto simp: GSsolve_node_def bindE_def Let_def split: sum.splits)

lemma GSsolveb_node_frame:
  assumes "GSsolveb_node F b M A Nu u i = Inr u'"
  shows "length u' = length u \<and> (\<forall>j. j \<noteq> unat i \<longrightarrow> u' ! j = u ! j)"
  using assms
  by (auto simp: GSsolveb_node_def bindE_def Let_def split: sum.splits)

lemma GSsolveb_loop_no_return:
  "GSsolveb_loop F b M A fr Nu i u = Some r \<Longrightarrow> \<exists>e. r = Inl e"
proof (induction F b M A fr Nu i u r rule: GSsolveb_loop.raw_induct[rotated 1, consumes 1])
  case (1 loop F b M A fr Nu i u r)
  note IH = "1"(1) and eq = "1"(2)
  show ?case
  proof (cases "find_eq fr (unat i) = []")
    case True
    with eq have "loop F b M A fr Nu (i - 1) u = Some r" by simp
    then show ?thesis by (rule IH)
  next
    case False
    show ?thesis
    proof (cases "GSsolveb_node F b M A Nu u i")
      case (Inl e)
      with eq False show ?thesis by auto
    next
      case (Inr u')
      with eq False have "loop F b M A fr Nu (i - 1) u' = Some r" by simp
      then show ?thesis by (rule IH)
    qed
  qed
qed

lemma subvec_Inr:
  "\<not> b < a \<Longrightarrow> unat b < length v \<Longrightarrow>
   subvec v a b = Inr (take (unat b - unat a + 1) (drop (unat a) v))"
  by (simp add: subvec_def)

lemma rowcol_Inr: "length xs = length ys \<Longrightarrow> rowcol xs ys = Inr (dot xs ys)"
  by (simp add: rowcol_def)

lemma dot_range:
  assumes "k \<le> n" "n \<le> length xs" "n \<le> length ys"
  shows "dot (take (n - k) (drop k xs)) (take (n - k) (drop k ys)) =
         sum_vec (map (\<lambda>j. xs ! j * ys ! j) [k..<n])"
proof -
  have "map2 (*) (take (n - k) (drop k xs)) (take (n - k) (drop k ys)) =
        map (\<lambda>j. xs ! j * ys ! j) [k..<n]"
    using assms by (intro nth_equalityI) simp_all
  then show ?thesis by (simp add: dot_def)
qed

lemma GSsolveb_currA_value:
  assumes i: "0 < unat i" "unat i < N" and u: "length u = N" and Nu: "unat Nu = N"
    and A: "unat i < length A" "N \<le> length (A ! unat i)"
  shows "GSsolveb_currA A u Nu i =
         Inr (sum_vec (map (\<lambda>j. A ! unat i ! j * u ! j) [0..<unat i]) +
              sum_vec (map (\<lambda>j. A ! unat i ! j * u ! j) [unat i..<N]))"
proof -
  let ?Ar = "A ! unat i"
  have i1: "unat (i - 1) = unat i - 1"
    using i(1) by (simp add: unat_sub word_le_nat_alt Suc_le_eq)
  have N1: "unat (Nu - 1) = N - 1"
    using i Nu by (simp add: unat_sub word_le_nat_alt Suc_le_eq)
  have r: "row A i = Inr ?Ar"
    using A by (simp add: row_def)
  have s1: "subvec ?Ar 0 (i - 1) = Inr (take (unat i - 0) (drop 0 ?Ar))"
    using subvec_Inr[of "i - 1" 0 ?Ar] i A i1 by simp
  have s2: "subvec u 0 (i - 1) = Inr (take (unat i - 0) (drop 0 u))"
    using subvec_Inr[of "i - 1" 0 u] i u i1 by simp
  have nlt: "\<not> Nu - 1 < i"
    using N1 i by (simp add: word_less_nat_alt)
  have s3: "subvec ?Ar i (Nu - 1) = Inr (take (N - unat i) (drop (unat i) ?Ar))"
    using subvec_Inr[OF nlt, of ?Ar] i A N1 by (simp add: Suc_diff_Suc)
  have s4: "subvec u i (Nu - 1) = Inr (take (N - unat i) (drop (unat i) u))"
    using subvec_Inr[OF nlt, of u] i u N1 by (simp add: Suc_diff_Suc)
  have l1: "length (take (unat i - 0) (drop 0 ?Ar)) = length (take (unat i - 0) (drop 0 u))"
    using i u A by simp
  have l2: "length (take (N - unat i) (drop (unat i) ?Ar)) = length (take (N - unat i) (drop (unat i) u))"
    using i u A by simp
  have d1: "dot (take (unat i - 0) (drop 0 ?Ar)) (take (unat i - 0) (drop 0 u)) =
            sum_vec (map (\<lambda>j. ?Ar ! j * u ! j) [0..<unat i])"
    using i u A by (intro dot_range) simp_all
  have d2: "dot (take (N - unat i) (drop (unat i) ?Ar)) (take (N - unat i) (drop (unat i) u)) =
            sum_vec (map (\<lambda>j. ?Ar ! j * u ! j) [unat i..<N])"
    using i u A by (intro dot_range) simp_all
  show ?thesis
    by (simp only: GSsolveb_currA_def bindE_def r sum.case s1 s2 s3 s4
        rowcol_Inr[OF l1] rowcol_Inr[OF l2] d1 d2)
qed

lemma GSsolve_currA_value:
  assumes i: "0 < unat i" "unat i + 1 < N" and u: "length u = N" and Nu: "unat Nu = N"
    and A: "unat i < length A" "N \<le> length (A ! unat i)"
  shows "GSsolve_currA A u Nu i =
         Inr (sum_vec (map (\<lambda>j. A ! unat i ! j * u ! j) [0..<unat i]) +
              sum_vec (map (\<lambda>j. A ! unat i ! j * u ! j) [unat i + 1..<N]))"
proof -
  let ?Ar = "A ! unat i"
  have i1: "unat (i - 1) = unat i - 1"
    using i(1) by (simp add: unat_sub word_le_nat_alt Suc_le_eq)
  have N1: "unat (Nu - 1) = N - 1"
    using i Nu by (simp add: unat_sub word_le_nat_alt Suc_le_eq)
  have "unat Nu < 2 ^ 64"
    using unsigned_less[of Nu, where 'a = nat] by simp
  then have "unat i + 1 < 2 ^ 64"
    using i(2) Nu by simp
  then have ip: "unat (i + 1) = unat i + 1"
    by (simp add: unat_word_ariths)
  have r: "row A i = Inr ?Ar"
    using A by (simp add: row_def)
  have s1: "subvec ?Ar 0 (i - 1) = Inr (take (unat i - 0) (drop 0 ?Ar))"
    using subvec_Inr[of "i - 1" 0 ?Ar] i A i1 by simp
  have s2: "subvec u 0 (i - 1) = Inr (take (unat i - 0) (drop 0 u))"
    using subvec_Inr[of "i - 1" 0 u] i u i1 by simp
  have nlt: "\<not> Nu - 1 < i + 1"
    using N1 i ip by (simp add: word_less_nat_alt)
  have s3: "subvec ?Ar (i + 1) (Nu - 1) = Inr (take (N - (unat i + 1)) (drop (unat i + 1) ?Ar))"
    using subvec_Inr[OF nlt, of ?Ar] i A N1 ip by (simp add: Suc_diff_Suc)
  have s4: "subvec u (i + 1) (Nu - 1) = Inr (take (N - (unat i + 1)) (drop (unat i + 1) u))"
    using subvec_Inr[OF nlt, of u] i u N1 ip by (simp add: Suc_diff_Suc)
  have l1: "length (take (unat i - 0) (drop 0 ?Ar)) = length (take (unat i - 0) (drop 0 u))"
    using i u A by simp
  have l2: "length (take (N - (unat i + 1)) (drop (unat i + 1) ?Ar)) =
            length (take (N - (unat i + 1)) (drop (unat i + 1) u))"
    using i u A by simp
  have d1: "dot (take (unat i - 0) (drop 0 ?Ar)) (take (unat i - 0) (drop 0 u)) =
            sum_vec (map (\<lambda>j. ?Ar ! j * u ! j) [0..<unat i])"
    using i u A by (intro dot_range) simp_all
  have d2: "dot (take (N - (unat i + 1)) (drop (unat i + 1) ?Ar))
              (take (N - (unat i + 1)) (drop (unat i + 1) u)) =
            sum_vec (map (\<lambda>j. ?Ar ! j * u ! j) [unat i + 1..<N])"
    using i u A by (intro dot_range) simp_all
  show ?thesis
    by (simp only: GSsolve_currA_def bindE_def r sum.case s1 s2 s3 s4
        rowcol_Inr[OF l1] rowcol_Inr[OF l2] d1 d2)
qed

lemmas access_defs = elt_def row_def elt2_def subvec_def dot_def rowcol_def bindE_def find_eq_def
  sum_vec_def zero_double_def unsigned_minus_1_eq_mask mask_eq_exp_minus_1

lemmas system3_defs = A3_def u3_def b3_def M3_def lin1D_def

section \<open>The backward sweep does not return\<close>

lemma GSsolveb_node_Inr:
  assumes i: "0 < unat i" "unat i < N" and u: "length u = N" and Nu: "unat Nu = N"
    and A: "unat i < length A" "N \<le> length (A ! unat i)"
    and b: "unat i < length b" and M: "unat i < length M"
  shows "\<exists>u'. GSsolveb_node F b M A Nu u i = Inr u'"
  using GSsolveb_currA_value[OF i u Nu A] i u A b M
  by (simp add: GSsolveb_node_def bindE_def elt_def elt2_def row_def Let_def)

lemma GSsolveb_loop_diverges:
  assumes "GSsolveb_loop F b M A fr Nu i u = Some r"
    and "length u = N" and "unat Nu = N"
    and "list_all (\<lambda>j. 0 < j \<and> j < N \<and> j < length b \<and> j < length M \<and> j < length A \<and> N \<le> length (A ! j)) fr"
  shows False
  using assms
proof (induction F b M A fr Nu i u r rule: GSsolveb_loop.raw_induct[rotated 1, consumes 1])
  case (1 loop F b M A fr Nu i u r)
  note IH = "1"(1) and eq = "1"(2) and prems = "1"(3-)
  show ?case
  proof (cases "unat i \<in> set fr")
    case False
    then have "find_eq fr (unat i) = []" by (simp add: find_eq_empty_iff)
    with eq have "loop F b M A fr Nu (i - 1) u = Some r" by simp
    from IH[OF this prems] show False .
  next
    case True
    then have ne: "find_eq fr (unat i) \<noteq> []" by (simp add: find_eq_empty_iff)
    from True prems(3) have b: "0 < unat i" "unat i < N" "unat i < length b" "unat i < length M"
       "unat i < length A" "N \<le> length (A ! unat i)"
      by (auto simp: list_all_iff)
    obtain u' where u': "GSsolveb_node F b M A Nu u i = Inr u'"
      using GSsolveb_node_Inr[OF b(1,2) prems(1,2) b(5,6,3,4)] by blast
    then have "length u' = N" using GSsolveb_node_frame[OF u'] prems(1) by simp
    moreover from u' ne eq have "loop F b M A fr Nu (i - 1) u' = Some r" by simp
    ultimately show False using IH prems by blast
  qed
qed

lemma GSsolveb_diverges:
  assumes "length u < 2 ^ 64"
    and "list_all (\<lambda>j. 0 < j \<and> j < length u \<and> j < length b \<and> j < length M \<and> j < length A \<and> length u \<le> length (A ! j)) fr"
  shows "GSsolveb F b u maxitr M A tol fr = None"
proof (cases "GSsolveb F b u maxitr M A tol fr")
  case None
  then show ?thesis .
next
  case (Some r)
  have "unat (of_nat (length u) :: uword) = length u"
    using assms(1) by (simp add: unat_of_nat)
  from GSsolveb_loop_diverges[OF _ refl this assms(2)] Some
  show ?thesis by (simp add: GSsolveb_def Let_def)
qed

text \<open>
  C1 (refuted by the code). The claim: the backward sweep \<open>GSsolveb\<close>, on any solution vector
  and any free-node set, makes a bounded traversal and returns. The code: the counter of
  line 204 is unsigned, its test \<^verbatim>\<open>i>=0\<close> always holds, and the only way out of the loop is
  an exception. On no input does \<open>GSsolveb\<close> return a vector; with node 1 the only free node
  of three it runs forever, and with node 0 free it stops with Armadillo's index error.
\<close>

theorem GSsolveb_never_returns:
  "GSsolveb FunSCNL1D b u maxitr M A tol free \<noteq> Some (Inr r) \<and>
   GSsolveb lin1D b3 u3 10 M3 A3 lit_1e_6 [1] = None \<and>
   GSsolveb lin1D b3 u3 10 M3 A3 lit_1e_6 [0, 1] = Some (Inl LogicError)"
proof (intro conjI)
  show "GSsolveb FunSCNL1D b u maxitr M A tol free \<noteq> Some (Inr r)"
    using GSsolveb_loop_no_return[of FunSCNL1D b M A free _ _ u "Inr r"]
    by (auto simp: GSsolveb_def Let_def)
next
  show "GSsolveb lin1D b3 u3 10 M3 A3 lit_1e_6 [1] = None"
    by (rule GSsolveb_diverges) (simp_all add: u3_def b3_def M3_def A3_def)
next
  show "GSsolveb lin1D b3 u3 10 M3 A3 lit_1e_6 [0, 1] = Some (Inl LogicError)"
    apply (simp add: GSsolveb_def u3_def)
    apply (subst GSsolveb_loop.simps)
    apply (simp add: GSsolveb_node_def GSsolveb_currA_def access_defs system3_defs NWTsolve1D_def
        minus_double_def lit_1e_6_value)
    apply (subst GSsolveb_loop.simps)
    apply (simp add: GSsolveb_node_def GSsolveb_currA_def access_defs system3_defs NWTsolve1D_def
        minus_double_def)
    done
qed

section \<open>The off-diagonal contribution of the two sweeps\<close>

text \<open>
  C3 (refuted by the code). The claim: in both sweeps the contribution assembled for a free
  index \<open>i\<close> is the sum of \<open>A(i,j) * u(j)\<close> over \<open>j \<noteq> i\<close>. The forward sweep adds the
  products over the columns \<open>0..i-1\<close> and \<open>i+1..N-1\<close> (\<open>GSsolve_currA_value\<close>); the backward
  sweep starts its second range at column \<open>i\<close>, so \<open>A(i,i) * u(i)\<close> is among its products
  (\<open>GSsolveb_currA_value\<close>). For the second row of \<open>A3\<close> against \<open>u3\<close>, where no sum is
  rounded: 1 * 1 + 1 * 3 = 4 forward, and 1 * 1 + (2 * 5 + 1 * 3) = 14 backward.
\<close>

theorem GSsolveb_currA_counts_diagonal:
  "GSsolve_currA A3 u3 3 1 = Inr (Fin 4) \<and>
   GSsolveb_currA A3 u3 3 1 = Inr (Fin 14) \<and>
   offdiag A3 u3 1 = Fin 4"
  by (simp add: GSsolve_currA_def GSsolveb_currA_def A3_def u3_def access_defs offdiag_def upt_rec)

section \<open>The 1-D Newton search with a zero derivative\<close>









section \<open>The forward sweep visits the interior indices\<close>

lemma foldE_frame:
  assumes step: "\<And>v j v'. f v j = Inr v' \<Longrightarrow> length v' = length v \<and> (\<forall>k. k \<noteq> g j \<longrightarrow> v' ! k = v ! k)"
    and "foldE f js u = Inr u'"
  shows "length u' = length u \<and> (\<forall>k. k \<notin> g ` set js \<longrightarrow> u' ! k = u ! k)"
  using assms(2)
proof (induction js arbitrary: u)
  case Nil
  then show ?case by simp
next
  case (Cons j js)
  from Cons.prems obtain v where v: "f u j = Inr v" "foldE f js v = Inr u'"
    by (auto split: sum.splits)
  from step[OF v(1)] Cons.IH[OF v(2)] show ?case by auto
qed

lemma GSsolve_fold:
  assumes "0 < length u" "length u < 2 ^ 64"
  shows "GSsolve F b u maxitr M A tol fr =
     foldE (\<lambda>v j. GSsolve_node F b M A (of_nat (length u)) v (of_nat j))
       (filter (\<lambda>j. j \<in> set fr) [1..<length u - 1]) u"
proof -
  let ?Nu = "of_nat (length u) :: uword"
  have Nu: "unat ?Nu = length u"
    using assms(2) by (simp add: unat_of_nat)
  then have "?Nu \<noteq> 0" using assms(1) by (metis unat_gt_0)
  then have "unat (?Nu - 1) = length u - 1"
    using Nu by (simp add: unat_minus_one)
  then show ?thesis
    using GSsolve_loop_fold[of F b M A fr ?Nu 1 u]
    by (simp add: GSsolve_def Let_def del: GSsolve_loop.simps)
qed

lemma GSsolve_ends_untouched:
  assumes "0 < length u" "length u < 2 ^ 64" "GSsolve F b u maxitr M A tol fr = Inr u'"
  shows "length u' = length u \<and> u' ! 0 = u ! 0 \<and> u' ! (length u - 1) = u ! (length u - 1) \<and>
         (\<forall>k. k \<notin> set fr \<longrightarrow> u' ! k = u ! k)"
proof -
  let ?js = "filter (\<lambda>j. j \<in> set fr) [1..<length u - 1]"
  let ?f = "\<lambda>v j. GSsolve_node F b M A (of_nat (length u)) v (of_nat j)"
  let ?g = "\<lambda>j. unat (of_nat j :: uword)"
  have fold: "foldE ?f ?js u = Inr u'"
    using GSsolve_fold[OF assms(1,2)] assms(3) by simp
  have fr: "length u' = length u \<and> (\<forall>k. k \<notin> ?g ` set ?js \<longrightarrow> u' ! k = u ! k)"
    by (rule foldE_frame[where f = ?f and g = ?g, OF _ fold]) (rule GSsolve_node_frame)
  have g: "?g j = j" if "j \<in> set ?js" for j
  proof -
    from that have "j < length u" by auto
    with assms(2) have "j < 2 ^ 64" by simp
    then show ?thesis by (simp add: unat_of_nat)
  qed
  then have img: "?g ` set ?js = set ?js" by (auto simp: image_iff)
  have "0 \<notin> set ?js" "length u - 1 \<notin> set ?js" by simp_all
  moreover have "k \<notin> set ?js" if "k \<notin> set fr" for k using that by simp
  ultimately show ?thesis using fr unfolding img by blast
qed

text \<open>
  C5 (refuted as stated). The claim: each sweep visits the whole range \<open>[0, N)\<close>, so a free
  node at index 0 or \<open>N - 1\<close> is updated once per sweep. On three nodes, all free, the forward
  sweep changes the middle entry only; the scalar problems of nodes 0 and 2, solved from the
  same vector, would have moved both entries to \<open>-5/2\<close>.
\<close>

theorem GSsolve_leaves_first_and_last:
  "GSsolve lin1D b3 u3 10 M3 A3 lit_1e_6 [0, 1, 2] = Inr [Fin 1, Fin (- 2), Fin 3] \<and>
   u3 = [Fin 1, Fin 5, Fin 3] \<and>
   NWTsolve1D (lin1D [offdiag A3 u3 0 + b3 ! 0, A3 ! 0 ! 0, M3 ! 0]) (u3 ! 0) lit_1e_6 10
     = Fin (- 5 / 2) \<and>
   NWTsolve1D (lin1D [offdiag A3 u3 2 + b3 ! 2, A3 ! 2 ! 2, M3 ! 2]) (u3 ! 2) lit_1e_6 10
     = Fin (- 5 / 2)"
  by (simp add: GSsolve_def GSsolve_node_def GSsolve_currA_def access_defs system3_defs offdiag_def
      upt_rec NWTsolve1D_def minus_double_def lit_1e_6_value)

text \<open>
  C5, as amended (forward sweep only). On a vector of \<open>N > 0\<close> entries the forward sweep
  visits the indices \<open>1, ..., N - 2\<close> in increasing order and runs its update once at each
  of them that is in the free-node set, skipping the others; the indices 0 and \<open>N - 1\<close> are
  not visited, free or not, and their entries are returned as they were.
\<close>

theorem GSsolve_visits_interior:
  "0 < length u \<Longrightarrow> length u < 2 ^ 64 \<Longrightarrow>
   GSsolve FunSCNL1D b u maxitr M A tol free =
     foldE (\<lambda>v j. GSsolve_node FunSCNL1D b M A (of_nat (length u)) v (of_nat j))
       (filter (\<lambda>j. j \<in> set free) [1..<length u - 1]) u \<and>
   (\<forall>u'. GSsolve FunSCNL1D b u maxitr M A tol free = Inr u' \<longrightarrow>
      length u' = length u \<and> u' ! 0 = u ! 0 \<and> u' ! (length u - 1) = u ! (length u - 1))"
  using GSsolve_fold[of u FunSCNL1D b maxitr M A tol free]
    GSsolve_ends_untouched[of u FunSCNL1D b maxitr M A tol free]
  by blast

theorem GSsolve_visits_interior_witness:
  "0 < length u3 \<and> length u3 < 2 ^ 64 \<and>
   GSsolve lin1D b3 u3 10 M3 A3 lit_1e_6 [0, 1, 2] =
     foldE (\<lambda>v j. GSsolve_node lin1D b3 M3 A3 3 v (of_nat j)) [1] u3"
proof -
  have h1: "0 < length u3" by (simp add: u3_def)
  have h2: "length u3 < 2 ^ 64" by (simp add: u3_def)
  have l: "filter (\<lambda>j. j \<in> set [0, 1, 2 :: nat]) [1..<length u3 - 1] = [1]"
    by (simp add: u3_def upt_rec)
  have n: "(of_nat (length u3) :: uword) = 3" by (simp add: u3_def)
  from GSsolve_visits_interior[OF h1 h2, of lin1D b3 10 M3 A3 lit_1e_6 "[0, 1, 2]"]
  have "GSsolve lin1D b3 u3 10 M3 A3 lit_1e_6 [0, 1, 2] =
     foldE (\<lambda>v j. GSsolve_node lin1D b3 M3 A3 3 v (of_nat j)) [1] u3"
    unfolding l n by blast
  with h1 h2 show ?thesis by blast
qed

section \<open>The sweeps ignore maxitr and tol\<close>



lemma GSsolveb_no_vector: "GSsolveb F b u maxitr M A tol fr \<noteq> Some (Inr r)"
  using GSsolveb_loop_no_return[of F b M A fr _ _ u "Inr r"]
  by (auto simp: GSsolveb_def Let_def)








section \<open>calcRHS assembles the load vector\<close>

lemma midpoints_value:
  assumes wf: "wf_mesh mesh" and j: "j < 3" and k: "k < 3"
  shows "midpoints mesh j k =
         Inr (map (\<lambda>t. midpoint (node mesh ! (elem mesh ! t ! j)) (node mesh ! (elem mesh ! t ! k)))
                [0..<length (elem mesh)])"
proof -
  let ?E = "elem mesh" and ?N = "node mesh"
  have E: "\<And>r. r \<in> set ?E \<Longrightarrow> length r = 3 \<and> (\<forall>v\<in>set r. v < length ?N)"
    using wf by (auto simp: wf_mesh_def list_all_iff)
  have Np: "\<And>p. p \<in> set ?N \<Longrightarrow> length p = 2"
    using wf by (auto simp: wf_mesh_def list_all_iff)
  have c: "col ?E m = Inr (map (\<lambda>r. r ! m) ?E)" if "m < 3" for m
    using E that by (auto simp: col_def list_all_iff)
  have r: "rows_at ?N (map (\<lambda>r. r ! m) ?E) = Inr (map (\<lambda>r. ?N ! (r ! m)) ?E)" if "m < 3" for m
  proof -
    have "r ! m < length ?N" if "r \<in> set ?E" for r
      using E[OF that] \<open>m < 3\<close> by (metis nth_mem)
    then show ?thesis by (simp add: rows_at_def list_all_iff comp_def)
  qed
  have len2: "length (?N ! (r ! m)) = 2" if "r \<in> set ?E" "m < 3" for r m
  proof -
    have "r ! m < length ?N" using E[OF that(1)] that(2) by (metis nth_mem)
    then show ?thesis using Np by simp
  qed
  have a: "madd (map (\<lambda>r. ?N ! (r ! j)) ?E) (map (\<lambda>r. ?N ! (r ! k)) ?E) =
           Inr (map (\<lambda>r. map2 (+) (?N ! (r ! j)) (?N ! (r ! k))) ?E)"
    using len2 j k by (simp add: madd_def list_all2_conv_all_nth zip_map_map zip_same_conv_map comp_def)
  have m: "mdiv (map (\<lambda>r. map2 (+) (?N ! (r ! j)) (?N ! (r ! k))) ?E) (Fin 2) =
           map (\<lambda>r. midpoint (?N ! (r ! j)) (?N ! (r ! k))) ?E"
    by (simp add: mdiv_def midpoint_def comp_def case_prod_unfold)
  have "midpoints mesh j k = Inr (map (\<lambda>r. midpoint (?N ! (r ! j)) (?N ! (r ! k))) ?E)"
    by (simp add: midpoints_def bindE_def c[OF j] c[OF k] r[OF j] r[OF k] a m)
  also have "map (\<lambda>r. midpoint (?N ! (r ! j)) (?N ! (r ! k))) ?E =
       map (\<lambda>t. midpoint (?N ! (?E ! t ! j)) (?N ! (?E ! t ! k))) [0..<length ?E]"
    by (simp add: map_equality_iff)
  finally show ?thesis .
qed

lemma loadpart_value:
  assumes pde: "\<And>X. pde X = map g X" and ar: "length (area mesh) = T"
  shows "loadpart pde mesh (map fA [0..<T]) (map fB [0..<T]) =
         Inr (map (\<lambda>t. area mesh ! t * (g (fA t) + g (fB t)) / Fin 6) [0..<T])"
proof -
  have v: "vadd (pde (map fA [0..<T])) (pde (map fB [0..<T])) =
           Inr (map (\<lambda>t. g (fA t) + g (fB t)) [0..<T])"
    by (simp add: vadd_def pde zip_map_map zip_same_conv_map comp_def)
  have "map2 (*) (area mesh) (map (\<lambda>t. g (fA t) + g (fB t)) [0..<T]) =
        map (\<lambda>t. area mesh ! t * (g (fA t) + g (fB t))) [0..<T]"
    using ar by (intro nth_equalityI) simp_all
  then have m: "vmul (area mesh) (map (\<lambda>t. g (fA t) + g (fB t)) [0..<T]) =
           Inr (map (\<lambda>t. area mesh ! t * (g (fA t) + g (fB t))) [0..<T])"
    using ar by (simp add: vmul_def)
  show ?thesis
    by (simp add: loadpart_def bindE_def v m vdiv_def comp_def)
qed

lemma vectorise_value:
  assumes "list_all (\<lambda>r. length r = 3) E"
  shows "vectorise E = concat (map (\<lambda>k. map (\<lambda>t. E ! t ! k) [0..<length E]) [0, 1, 2])"
proof (cases E)
  case Nil
  then show ?thesis by (simp add: vectorise_def n_cols_def)
next
  case (Cons r rs)
  then have "n_cols E = 3" using assms by (simp add: n_cols_def)
  moreover have "[0..<3] = [0, 1, 2]" by (simp add: upt_rec)
  moreover have "map (\<lambda>r. r ! k) E = map (\<lambda>t. E ! t ! k) [0..<length E]" for k
    by (simp add: map_equality_iff)
  ultimately show ?thesis by (simp add: vectorise_def)
qed

lemma calcRHS_value:
  assumes wf: "wf_mesh mesh" and pde: "\<And>X. pde X = map g X"
  shows "calcRHS pde mesh = Inr (calcRHS_spec g mesh)"
proof -
  let ?T = "length (elem mesh)"
  let ?keys = "concat (map (\<lambda>k. map (\<lambda>t. elem mesh ! t ! k) [0..<?T]) [0, 1, 2])"
  let ?vals = "concat (map (\<lambda>k. map (\<lambda>t. vertex_load g mesh k t) [0..<?T]) [0, 1, 2])"
  have ar: "length (area mesh) = ?T"
    using wf by (simp add: wf_mesh_def)
  have E3: "list_all (\<lambda>r. length r = 3) (elem mesh)"
    using wf by (auto simp: wf_mesh_def list_all_iff)
  note mp = midpoints_value[OF wf]
  have bt1: "loadpart pde mesh
      (map (\<lambda>t. midpoint (node mesh ! (elem mesh ! t ! 2)) (node mesh ! (elem mesh ! t ! 0))) [0..<?T])
      (map (\<lambda>t. midpoint (node mesh ! (elem mesh ! t ! 0)) (node mesh ! (elem mesh ! t ! Suc 0))) [0..<?T])
      = Inr (map (\<lambda>t. vertex_load g mesh 0 t) [0..<?T])"
    by (simp add: loadpart_value[OF pde ar] vertex_load_def edge_mid_def numeral_2_eq_2)
  have bt2: "loadpart pde mesh
      (map (\<lambda>t. midpoint (node mesh ! (elem mesh ! t ! 0)) (node mesh ! (elem mesh ! t ! Suc 0))) [0..<?T])
      (map (\<lambda>t. midpoint (node mesh ! (elem mesh ! t ! Suc 0)) (node mesh ! (elem mesh ! t ! 2))) [0..<?T])
      = Inr (map (\<lambda>t. vertex_load g mesh 1 t) [0..<?T])"
    by (simp add: loadpart_value[OF pde ar] vertex_load_def edge_mid_def numeral_2_eq_2)
  have bt3: "loadpart pde mesh
      (map (\<lambda>t. midpoint (node mesh ! (elem mesh ! t ! Suc 0)) (node mesh ! (elem mesh ! t ! 2))) [0..<?T])
      (map (\<lambda>t. midpoint (node mesh ! (elem mesh ! t ! 2)) (node mesh ! (elem mesh ! t ! 0))) [0..<?T])
      = Inr (map (\<lambda>t. vertex_load g mesh 2 t) [0..<?T])"
    by (simp add: loadpart_value[OF pde ar] vertex_load_def edge_mid_def numeral_2_eq_2)
  have c: "calcRHS pde mesh = accumArray ?keys ?vals (length (node mesh))"
    by (simp add: calcRHS_def bindE_def mp bt1 bt2 bt3 vectorise_value[OF E3] Let_def)
  have len: "length ?vals = length ?keys" by simp
  from accumArray_entries[OF len, of "length (node mesh)"]
  obtain S where S: "accumArray ?keys ?vals (length (node mesh)) = Inr S"
    "length S = length (node mesh)"
    "\<forall>i<length (node mesh). S ! i = sum_vec (map snd (filter (\<lambda>kv. fst kv = i) (zip ?keys ?vals)))"
    by blast
  have "S = calcRHS_spec g mesh"
    using S(2,3) by (intro nth_equalityI) (simp_all add: calcRHS_spec_def Let_def)
  with c S(1) show ?thesis by simp
qed

lemma wf_sq5: "wf_mesh sq5"
  by (simp add: wf_mesh_def sq5_def)

lemma upt_nodes_sq5: "[0..<length (node sq5)] = [0, 1, 2, 3, 4]"
  by (simp add: sq5_def upt_rec)

lemma calcRHS_spec_sq5_zero: "calcRHS_spec (\<lambda>p. Fin 0) sq5 = [Fin 0, Fin 0, Fin 0, Fin 0, Fin 0]"
  unfolding calcRHS_spec_def Let_def upt_nodes_sq5 list.map
  by (simp add: vertex_load_def sq5_def zero_double_def sum_vec_def upt_rec)

lemma calcRHS_spec_sq5_linear: "calcRHS_spec (\<lambda>p. Fin 3 * (p ! 0 + p ! 1)) sq5 =
   [Fin (1 / 4), Fin (1 / 2), Fin 1, Fin (1 / 2), Fin (3 / 4)]"
  unfolding calcRHS_spec_def Let_def upt_nodes_sq5 list.map
  by (simp add: vertex_load_def edge_mid_def midpoint_def sq5_def zero_double_def sum_vec_def
      upt_rec)

text \<open>
  With the source \<open>x + y\<close> the contributions \<open>(1/4 * 1) / 6\<close> and \<open>(1/4 * 5/2) / 6\<close> are
  rounded, and so is the sum \<open>1/16 + fl (5/48)\<close>, which lies halfway between two doubles:
  the entries are the doubles nearest to \<open>1/12\<close>, \<open>1/6\<close>, \<open>1/3\<close>, \<open>1/6\<close>, and \<open>1/4\<close>.
\<close>

lemma fl_sq5_linear:
  "fl (5 / 48) = Fin (7505999378950827 / 72057594037927936)"
  "fl (6004799503160661 / 144115188075855872) = Fin (6004799503160661 / 144115188075855872)"
  "fl (6004799503160661 / 72057594037927936) = Fin (6004799503160661 / 72057594037927936)"
  "fl (7505999378950827 / 72057594037927936) = Fin (7505999378950827 / 72057594037927936)"
  "fl (12009599006321323 / 72057594037927936) = Fin (3002399751580331 / 18014398509481984)"
  "fl (3002399751580331 / 9007199254740992) = Fin (3002399751580331 / 9007199254740992)"
proof -
  have r: "rhe (5 / 48 / 2 powi (- 4 - 52)) = 7505999378950827"
    by (simp add: rhe_def Let_def)
  have "fl (5 / 48) = Fin (of_int 7505999378950827 * 2 powi (- 4 - 52))"
    by (rule fl_round[OF _ _ _ _ r]) simp_all
  then show "fl (5 / 48) = Fin (7505999378950827 / 72057594037927936)" by simp
  show "fl (6004799503160661 / 144115188075855872) = Fin (6004799503160661 / 144115188075855872)"
    using fl_frac[of 6004799503160661 57] by simp
  show "fl (6004799503160661 / 72057594037927936) = Fin (6004799503160661 / 72057594037927936)"
    using fl_frac[of 6004799503160661 56] by simp
  show "fl (7505999378950827 / 72057594037927936) = Fin (7505999378950827 / 72057594037927936)"
    using fl_frac[of 7505999378950827 56] by simp
  have t: "rhe (12009599006321323 / 72057594037927936 / 2 powi (- 3 - 52)) = 6004799503160662"
    by (simp add: rhe_def Let_def)
  have "fl (12009599006321323 / 72057594037927936) =
        Fin (of_int 6004799503160662 * 2 powi (- 3 - 52))"
    by (rule fl_round[OF _ _ _ _ t]) simp_all
  then show "fl (12009599006321323 / 72057594037927936) =
             Fin (3002399751580331 / 18014398509481984)"
    by simp
  show "fl (3002399751580331 / 9007199254740992) = Fin (3002399751580331 / 9007199254740992)"
    using fl_frac[of 3002399751580331 53] by simp
qed

lemma calcRHS_spec_sq5_xy: "calcRHS_spec (\<lambda>p. p ! 0 + p ! 1) sq5 =
   [Fin (6004799503160661 / 2 ^ 56), Fin (3002399751580331 / 2 ^ 54),
    Fin (3002399751580331 / 2 ^ 53), Fin (3002399751580331 / 2 ^ 54), Fin (1 / 4)]"
  unfolding calcRHS_spec_def Let_def upt_nodes_sq5 list.map
  by (simp add: vertex_load_def edge_mid_def midpoint_def sq5_def zero_double_def sum_vec_def
      upt_rec fl_24th fl_sq5_linear)

text \<open>
  C7. On a mesh of triangles (three vertex indices per element, each the index of a node,
  two coordinates per node, one area per element) and for a source function evaluated
  point by point, \<open>calcRHS\<close> returns the vector of length \<open>N\<close> that the specification
  describes: per element the three edge midpoints, per vertex the area times the sum of the
  source at the two adjacent midpoints over 6, the contributions of vertex 0, then 1, then
  2, summed by key against the connectivity table flattened in the same order. Every
  operation is the one on doubles, rounded, in the order in which the specification words
  it; the sum by key is \<open>sum_vec\<close>. \<open>calcRHS\<close> is a function of the mesh and the source and
  returns nothing but the vector: the mesh is not changed.
\<close>

theorem calcRHS_assembles_load_vector:
  "wf_mesh mesh \<Longrightarrow> (\<forall>X. pde X = map g X) \<Longrightarrow>
   calcRHS pde mesh = Inr (calcRHS_spec g mesh) \<and>
   length (calcRHS_spec g mesh) = length (node mesh)"
  using calcRHS_value[of mesh pde g] by (simp add: calcRHS_spec_def Let_def)

theorem calcRHS_assembles_load_vector_witness:
  "wf_mesh sq5 \<and>
   calcRHS (map (\<lambda>p. Fin 3 * (p ! 0 + p ! 1))) sq5 =
     Inr [Fin (1 / 4), Fin (1 / 2), Fin 1, Fin (1 / 2), Fin (3 / 4)] \<and>
   calcRHS (map (\<lambda>p. p ! 0 + p ! 1)) sq5 =
     Inr [Fin (6004799503160661 / 2 ^ 56), Fin (3002399751580331 / 2 ^ 54),
          Fin (3002399751580331 / 2 ^ 53), Fin (3002399751580331 / 2 ^ 54), Fin (1 / 4)]"
proof -
  have h: "\<forall>X. map g X = map g X" for g :: "vec \<Rightarrow> double" by simp
  from calcRHS_assembles_load_vector[OF wf_sq5 h]
  have "calcRHS (map (\<lambda>p. Fin 3 * (p ! 0 + p ! 1))) sq5 =
          Inr (calcRHS_spec (\<lambda>p. Fin 3 * (p ! 0 + p ! 1)) sq5)"
    by (rule conjunct1)
  then have a: "calcRHS (map (\<lambda>p. Fin 3 * (p ! 0 + p ! 1))) sq5 =
     Inr [Fin (1 / 4), Fin (1 / 2), Fin 1, Fin (1 / 2), Fin (3 / 4)]"
    unfolding calcRHS_spec_sq5_linear .
  from calcRHS_assembles_load_vector[OF wf_sq5 h]
  have "calcRHS (map (\<lambda>p. p ! 0 + p ! 1)) sq5 = Inr (calcRHS_spec (\<lambda>p. p ! 0 + p ! 1) sq5)"
    by (rule conjunct1)
  then have b: "calcRHS (map (\<lambda>p. p ! 0 + p ! 1)) sq5 =
     Inr [Fin (6004799503160661 / 2 ^ 56), Fin (3002399751580331 / 2 ^ 54),
          Fin (3002399751580331 / 2 ^ 53), Fin (3002399751580331 / 2 ^ 54), Fin (1 / 4)]"
    unfolding calcRHS_spec_sq5_xy .
  from wf_sq5 a b show ?thesis by (intro conjI)
qed

section \<open>What the sweeps and the Newton correction leave alone\<close>

lemma fold_update_frame:
  "length (fold (\<lambda>(i, v) w. w[i := v]) ps u) = length u \<and>
   (\<forall>j. j \<notin> fst ` set ps \<longrightarrow> fold (\<lambda>(i, v) w. w[i := v]) ps u ! j = u ! j)"
  by (induction ps arbitrary: u) (auto simp: case_prod_unfold)

lemma set_rows_frame:
  assumes "set_rows u idx vals = Inr u'"
  shows "length u' = length u \<and> (\<forall>j. j \<notin> set idx \<longrightarrow> u' ! j = u ! j)"
proof -
  from assms have u': "u' = fold (\<lambda>(i, v) w. w[i := v]) (zip idx vals) u"
    and len: "length idx = length vals"
    by (auto simp: set_rows_def split: if_splits)
  have "fst ` set (zip idx vals) = set idx"
    using len by (metis map_fst_zip set_map)
  with fold_update_frame[of "zip idx vals" u] u' show ?thesis by simp
qed

lemma fold_update_value:
  assumes "distinct idx" "length idx = length vals" "\<forall>i\<in>set idx. i < length u" "k < length idx"
  shows "fold (\<lambda>(i, v) w. w[i := v]) (zip idx vals) u ! (idx ! k) = vals ! k"
  using assms
proof (induction idx arbitrary: vals u k)
  case Nil
  then show ?case by simp
next
  case (Cons i idx)
  then obtain v vs where vals: "vals = v # vs" by (cases vals) auto
  show ?case
  proof (cases k)
    case 0
    have "i \<notin> fst ` set (zip idx vs)"
      using Cons.prems(1) by (auto dest: set_zip_leftD)
    then have "fold (\<lambda>(i, v) w. w[i := v]) (zip idx vs) (u[i := v]) ! i = u[i := v] ! i"
      using fold_update_frame[of "zip idx vs" "u[i := v]"] by blast
    then show ?thesis using 0 vals Cons.prems(3) by simp
  next
    case (Suc k')
    then show ?thesis
      using Cons.IH[of vs "u[i := v]" k'] Cons.prems vals by simp
  qed
qed

lemma Driver_init_value:
  assumes "Driver_init ext mesh = Inr u0" "distinct (bdNode mesh)" "k < length (bdNode mesh)"
  shows "u0 ! (bdNode mesh ! k) = bdfun_evalF ext (map (\<lambda>i. node mesh ! i) (bdNode mesh)) ! k"
proof -
  let ?X = "map (\<lambda>i. node mesh ! i) (bdNode mesh)"
  from assms(1) have s: "set_rows (zeros (length (node mesh))) (bdNode mesh) (bdfun_evalF ext ?X) = Inr u0"
    by (auto simp: Driver_init_def bindE_def rows_at_def split: sum.splits if_splits)
  then have u0: "u0 = fold (\<lambda>(i, v) w. w[i := v]) (zip (bdNode mesh) (bdfun_evalF ext ?X))
                    (zeros (length (node mesh)))"
    and len: "length (bdNode mesh) = length (bdfun_evalF ext ?X)"
    and bnd: "\<forall>i\<in>set (bdNode mesh). i < length (zeros (length (node mesh)))"
    by (auto simp: set_rows_def list_all_iff split: if_splits)
  show ?thesis
    unfolding u0 by (rule fold_update_value[OF assms(2) len bnd assms(3)])
qed

lemma GSsolve_frame:
  assumes "GSsolve F b u maxitr M A tol fN = Inr u'"
  shows "length u' = length u \<and> (\<forall>j. j \<notin> set fN \<longrightarrow> u' ! j = u ! j)"
proof -
  let ?Nu = "of_nat (length u) :: uword"
  let ?js = "filter (\<lambda>j. j \<in> set fN) [unat (1 :: uword) ..< unat (?Nu - 1)]"
  let ?f = "\<lambda>v j. GSsolve_node F b M A ?Nu v (of_nat j)"
  let ?g = "\<lambda>j. unat (of_nat j :: uword)"
  have fold: "foldE ?f ?js u = Inr u'"
    using assms GSsolve_loop_fold[of F b M A fN ?Nu 1 u] by (simp add: GSsolve_def Let_def)
  have fr: "length u' = length u \<and> (\<forall>k. k \<notin> ?g ` set ?js \<longrightarrow> u' ! k = u ! k)"
    by (rule foldE_frame[where f = ?f and g = ?g, OF _ fold]) (rule GSsolve_node_frame)
  have g: "?g j = j" if "j \<in> set ?js" for j
  proof -
    from that have "j < unat (?Nu - 1)" by auto
    moreover have "unat (?Nu - 1) < 2 ^ 64" using unsigned_less[of "?Nu - 1", where 'a = nat] by simp
    ultimately have "j < 2 ^ 64" by simp
    then show ?thesis by (simp add: unat_of_nat)
  qed
  then have img: "?g ` set ?js = set ?js" by (auto simp: image_iff)
  have "k \<notin> set ?js" if "k \<notin> set fN" for k using that by simp
  then show ?thesis using fr unfolding img by blast
qed

lemma GSsolveb_iter_frame:
  "GSsolveb_iter n F b M A fN Nu i u = Inr (i', u') \<Longrightarrow>
   length u' = length u \<and> (\<forall>j. j \<notin> set fN \<longrightarrow> u' ! j = u ! j)"
proof (induction n arbitrary: i u)
  case 0
  then show ?case by simp
next
  case (Suc n)
  show ?case
  proof (cases "find_eq fN (unat i) = []")
    case True
    with Suc.prems have "GSsolveb_iter n F b M A fN Nu (i - 1) u = Inr (i', u')" by simp
    from Suc.IH[OF this] show ?thesis .
  next
    case False
    then have mem: "unat i \<in> set fN" by (simp add: find_eq_empty_iff)
    from Suc.prems False obtain v where v: "GSsolveb_node F b M A Nu u i = Inr v"
      "GSsolveb_iter n F b M A fN Nu (i - 1) v = Inr (i', u')"
      by (auto split: sum.splits)
    from GSsolveb_node_frame[OF v(1)] Suc.IH[OF v(2)] mem show ?thesis by (metis)
  qed
qed

lemma GSsolveb_iter_loop:
  "GSsolveb_iter n F b M A fN Nu i u = Inr (i', u') \<Longrightarrow>
   GSsolveb_loop F b M A fN Nu i u = GSsolveb_loop F b M A fN Nu i' u'"
proof (induction n arbitrary: i u)
  case 0
  then show ?case by simp
next
  case (Suc n)
  show ?case
  proof (cases "find_eq fN (unat i) = []")
    case True
    with Suc.prems have "GSsolveb_iter n F b M A fN Nu (i - 1) u = Inr (i', u')" by simp
    from Suc.IH[OF this] True show ?thesis
      by (subst GSsolveb_loop.simps) simp
  next
    case False
    from Suc.prems False obtain v where v: "GSsolveb_node F b M A Nu u i = Inr v"
      "GSsolveb_iter n F b M A fN Nu (i - 1) v = Inr (i', u')"
      by (auto split: sum.splits)
    from Suc.IH[OF v(2)] v(1) False show ?thesis
      by (subst GSsolveb_loop.simps) simp
  qed
qed

lemma NWTsolve_step_frame:
  assumes "NWTsolve_step ext b M A fN r u = Inr (u', r', err')"
  shows "length u' = length u \<and> (\<forall>j. j \<notin> set fN \<longrightarrow> u' ! j = u ! j)"
proof -
  from assms obtain unew where "set_rows u fN unew = Inr u'"
    by (auto simp: NWTsolve_step_def bindE_def Let_def split: sum.splits)
  then show ?thesis by (rule set_rows_frame)
qed

lemma NWTsolve_loop_frame:
  "NWTsolve_loop ext b M A fN tol maxitr k err r u = Inr u' \<Longrightarrow>
   length u' = length u \<and> (\<forall>j. j \<notin> set fN \<longrightarrow> u' ! j = u ! j)"
proof (induction ext b M A fN tol maxitr k err r u rule: NWTsolve_loop.induct)
  case (1 ext b M A fN tol maxitr k err r u)
  show ?case
  proof (cases "k < maxitr \<and> tol < err")
    case False
    with "1.prems" show ?thesis by auto
  next
    case True
    with "1.prems" obtain s where s: "NWTsolve_step ext b M A fN r u = Inr s"
      "NWTsolve_loop ext b M A fN tol maxitr (k + 1) (snd (snd s)) (fst (snd s)) (fst s) = Inr u'"
      by (auto split: sum.splits)
    have "NWTsolve_step ext b M A fN r u = Inr (fst s, fst (snd s), snd (snd s))"
      using s(1) by simp
    from NWTsolve_step_frame[OF this] "1.IH"[OF True s(1) s(2)] show ?thesis by auto
  qed
qed

lemma NWTsolve_frame:
  assumes "NWTsolve ext b u maxitr M A tol fN = Inr u'"
  shows "length u' = length u \<and> (\<forall>j. j \<notin> set fN \<longrightarrow> u' ! j = u ! j)"
proof -
  from assms obtain r tol' err where
    "NWTsolve_loop ext b M A fN tol' maxitr 0 err r u = Inr u'"
    by (auto simp: NWTsolve_def bindE_def Let_def simp del: NWTsolve_loop.simps split: sum.splits)
  then show ?thesis by (rule NWTsolve_loop_frame)
qed

lemma Driver_body_never_completes: "Driver_body F b Mv A fu fN u \<noteq> Some (Inr ue)"
proof (cases "GSsolve F b u 10 Mv A lit_1e_6 fN")
  case (Inl e)
  then show ?thesis by (simp add: Driver_body_def)
next
  case (Inr u1)
  show ?thesis
  proof (cases "GSsolveb F b u1 10 Mv A lit_1e_6 fN")
    case None
    with Inr show ?thesis by (simp add: Driver_body_def)
  next
    case (Some r)
    with GSsolveb_no_vector[of F b u1 10 Mv A lit_1e_6 fN] obtain e where "r = Inl e"
      by (cases r) auto
    with Inr Some show ?thesis by (simp add: Driver_body_def)
  qed
qed

lemma Driver_loop_returns_initial:
  assumes "Driver_loop F b Mv A fu fN tol k err u = Some (Inr u')"
  shows "u' = u \<and> \<not> (k < 10 \<and> tol < err)"
proof (cases "k < 10 \<and> tol < err")
  case False
  with assms show ?thesis by auto
next
  case True
  show ?thesis
  proof (cases "Driver_body F b Mv A fu fN u")
    case None
    with True assms show ?thesis by simp
  next
    case (Some r)
    with Driver_body_never_completes[of F b Mv A fu fN u] obtain e where "r = Inl e"
      by (cases r) auto
    with Some True assms show ?thesis by simp
  qed
qed

lemma FiniteElemNL_returns_init:
  assumes "FiniteElemNL ext meshprops fn = Some (Inr u')"
  shows "Driver_init ext (MeshMG_refined ext meshprops) = Inr u'"
proof -
  let ?mesh = "MeshMG_refined ext meshprops"
  from assms obtain b u A Mv fu r tol err where
    i: "Driver_init ext ?mesh = Inr u" and
    l: "Driver_loop (FunSCNL1D_ctor ext) b Mv A fu (freeNode ?mesh) tol 0 err u = Some (Inr u')"
    by (auto simp: FiniteElemNL_def Let_def bindE_def split: sum.splits prod.splits)
  from Driver_loop_returns_initial[OF l] i show ?thesis by simp
qed


lemma FiniteElemNL_ignores_name:
  "FiniteElemNL ext meshprops funname = FiniteElemNL ext meshprops funname'"
  by (simp add: FiniteElemNL_def)

section \<open>Runs on the square mesh\<close>

lemmas vector_defs = vadd_def vsub_def vmul_def vdiv_def madd_def mdiv_def matvec_def rows_at_def
  set_rows_def col_def n_cols_def vectorise_def diag_def diagmat_def submat_def norm2_def zeros_def

lemma ext_mesh: "MeshMG_refined ext0 mp = sq5" "MeshMG_refined ext5 mp = sq5"
  by (simp_all add: ext0_def ext5_def)

lemma ext_pde: "pde_evalF ext0 = map (\<lambda>p. Fin 0)" "pde_evalF ext5 = map (\<lambda>p. Fin 0)"
  by (simp_all add: ext0_def ext5_def)

lemma calcRHS_sq5_zero: "calcRHS (map (\<lambda>p. Fin 0)) sq5 = Inr [Fin 0, Fin 0, Fin 0, Fin 0, Fin 0]"
  using calcRHS_value[OF wf_sq5, of "map (\<lambda>p. Fin 0)" "\<lambda>p. Fin 0"] by (simp add: calcRHS_spec_sq5_zero)

lemma diag_mass_sq5: "diag (mass sq5) = [Fin (1 / 8), Fin (1 / 8), Fin (1 / 4), Fin (1 / 8), Fin (1 / 8)]"
  by (simp add: diag_def n_cols_def sq5_def upt_rec)

lemma Driver_init_ext0: "Driver_init ext0 sq5 = Inr [Fin 0, Fin 0, Fin 0, Fin 0, Fin 0]"
  by (simp add: Driver_init_def ext0_def ext5_def sq5_def rows_at_def set_rows_def zeros_def
      bindE_def zero_double_def)

lemma Driver_init_ext5: "Driver_init ext5 sq5 = Inr [Fin 0, Fin 1, Fin 0, Fin 1, Fin 2]"
  by (simp add: Driver_init_def ext5_def sq5_def rows_at_def set_rows_def zeros_def
      bindE_def zero_double_def)

lemma ext_pdenl: "pdenl_evalF ext5 = map (\<lambda>x. x * x * x)" "pdenl_evalF ext0 = map (\<lambda>x. x * x * x)"
  by (simp_all add: ext5_def ext0_def)

lemma stiffness_sq5: "stiffness sq5 = [[Fin 1, Fin 0, Fin (- 1), Fin 0, Fin 0],
                       [Fin 0, Fin 1, Fin (- 1), Fin 0, Fin 0],
                       [Fin (- 1), Fin (- 1), Fin 4, Fin (- 1), Fin (- 1)],
                       [Fin 0, Fin 0, Fin (- 1), Fin 1, Fin 0],
                       [Fin 0, Fin 0, Fin (- 1), Fin 0, Fin 1]]"
  by (simp add: sq5_def)

lemmas residual_defs = residual_free_def matvec_def vmul_def vadd_def vsub_def rows_at_def bindE_def
  dot_def sum_vec_def minus_double_def zero_double_def

lemma residual_zero: "residual_free (stiffness sq5) (diag (mass sq5))
     (map (\<lambda>x. x * x * x) [Fin 0, Fin 0, Fin 0, Fin 0, Fin 0])
     [Fin 0, Fin 0, Fin 0, Fin 0, Fin 0] [2] [Fin 0, Fin 0, Fin 0, Fin 0, Fin 0] = Inr [Fin 0]"
  unfolding diag_mass_sq5 stiffness_sq5 by (simp add: residual_defs)

lemma residual_init: "residual_free (stiffness sq5) (diag (mass sq5))
     (map (\<lambda>x. x * x * x) [Fin 0, Fin 1, Fin 0, Fin 1, Fin 2])
     [Fin 0, Fin 0, Fin 0, Fin 0, Fin 0] [2] [Fin 0, Fin 1, Fin 0, Fin 1, Fin 2] = Inr [Fin (- 4)]"
  unfolding diag_mass_sq5 stiffness_sq5 by (simp add: residual_defs)

lemma residual_fresh: "residual_free (stiffness sq5) (diag (mass sq5))
     (map (\<lambda>x. x * x * x) [Fin 0, Fin 1, Fin 1, Fin 1, Fin 2])
     [Fin 0, Fin 0, Fin 0, Fin 0, Fin 0] [2] [Fin 0, Fin 1, Fin 1, Fin 1, Fin 2] = Inr [Fin (1 / 4)]"
  unfolding diag_mass_sq5 stiffness_sq5 by (simp add: residual_defs)

lemma norm2_values: "norm2 [Fin 0] = Fin 0" "norm2 [Fin (- 4)] = Fin 4" "norm2 [Fin (1 / 4)] = Fin (1 / 4)"
proof -
  have "sqrt 16 = sqrt (4\<^sup>2)" by simp
  then have s: "sqrt 16 = 4" by (simp only: real_sqrt_abs abs_numeral)
  have "sqrt ((1 / 4)\<^sup>2) = (1 / 4 :: real)"
    by (subst real_sqrt_abs) simp
  then have t: "sqrt (1 / 16) = (1 / 4 :: real)"
    by (simp add: power2_eq_square)
  show "norm2 [Fin 0] = Fin 0" by (simp add: norm2_def sum_vec_def zero_double_def)
  show "norm2 [Fin (- 4)] = Fin 4" by (simp add: norm2_def sum_vec_def zero_double_def s)
  show "norm2 [Fin (1 / 4)] = Fin (1 / 4)" by (simp add: norm2_def sum_vec_def zero_double_def t)
qed

lemma GSsolve_sq5: "GSsolve lin1D [Fin 0, Fin 0, Fin 0, Fin 0, Fin 0] [Fin 0, Fin 1, Fin 0, Fin 1, Fin 2] 10
    (diag (mass sq5)) (stiffness sq5) lit_1e_6 [2] = Inr [Fin 0, Fin 1, Fin 1, Fin 1, Fin 2]"
  unfolding diag_mass_sq5 stiffness_sq5
  by (simp add: GSsolve_def GSsolve_node_def GSsolve_currA_def access_defs lin1D_def
      NWTsolve1D_def minus_double_def lit_1e_6_value)

lemma FiniteElemNL_ext0: "FiniteElemNL ext0 [] ''no such function'' = Some (Inr [Fin 0, Fin 0, Fin 0, Fin 0, Fin 0])"
proof -
  have f: "freeNode sq5 = [2]" by (simp add: sq5_def)
  have "FiniteElemNL ext0 [] ''no such function'' =
        Driver_loop (FunSCNL1D_ctor ext0) [Fin 0, Fin 0, Fin 0, Fin 0, Fin 0] (diag (mass sq5))
          (stiffness sq5) (map (\<lambda>x. x * x * x) [Fin 0, Fin 0, Fin 0, Fin 0, Fin 0]) [2]
          (lit_1e_6 * Fin 0) 0 (Fin 2 * (lit_1e_6 * Fin 0))
          [Fin 0, Fin 0, Fin 0, Fin 0, Fin 0]"
    by (simp only: FiniteElemNL_def Let_def ext_mesh ext_pde calcRHS_sq5_zero Driver_init_ext0 ext_pdenl f bindE_def sum.case
        residual_zero prod.case norm2_values)
  also have "\<dots> = Some (Inr [Fin 0, Fin 0, Fin 0, Fin 0, Fin 0])"
    by (subst Driver_loop.simps) (simp add: lit_1e_6_scaled)
  finally show ?thesis .
qed



lemma GSsolveb_iter_sq5: "GSsolveb_iter (Suc (Suc 0)) lin1D [Fin 0, Fin 0, Fin 0, Fin 0, Fin 0] (diag (mass sq5))
    (stiffness sq5) [2] 5 3 [Fin 0, Fin 1, Fin 1, Fin 1, Fin 2] = Inr (1, [Fin 0, Fin 1, Fin 0, Fin 1, Fin 2])"
  unfolding diag_mass_sq5 stiffness_sq5
  by (simp add: GSsolveb_node_def GSsolveb_currA_def access_defs lin1D_def NWTsolve1D_def
      minus_double_def Let_def lit_1e_6_value)

lemma NWTsolve_step_sq5: "NWTsolve_step ext5 [Fin 0, Fin 0, Fin 0, Fin 0, Fin 0] (diag (mass sq5)) (stiffness sq5) [2] [Fin (- 4)]
    [Fin 0, Fin 1, Fin 0, Fin 1, Fin 2] = Inr ([Fin 0, Fin 1, Fin 1, Fin 1, Fin 2], [Fin (1 / 4)], Fin (1 / 4))"
proof -
  let ?u = "[Fin 0, Fin 1, Fin 0, Fin 1, Fin 2]"
  let ?Df = "[Fin 0, Fin (3 / 8), Fin 0, Fin (3 / 8), Fin (3 / 2)]"
  have a: "vmul (diag (mass sq5)) (pdenl_evalDF ext5 ?u) = Inr ?Df"
    by (simp add: ext5_def sq5_def vmul_def diag_def n_cols_def upt_rec)
  have b: "bindE (madd (stiffness sq5) (diagmat ?Df)) (\<lambda>B. submat B [2] [2]) = Inr [[Fin 4]]"
    by (simp add: sq5_def madd_def diagmat_def submat_def n_cols_def bindE_def zero_double_def upt_rec)
  have c: "arma_solve ext5 [[Fin 4]] [Fin (- 4)] = Inr [Fin (- 1)]"
    by (simp add: ext5_def solve1_def)
  have d1: "rows_at ?u [2] = Inr [Fin 0]"
    by (simp add: rows_at_def)
  have d2: "vsub [Fin 0] [Fin (- 1)] = Inr [Fin 1]"
    by (simp add: vsub_def minus_double_def)
  have d3: "set_rows ?u [2] [Fin 1] = Inr [Fin 0, Fin 1, Fin 1, Fin 1, Fin 2]"
    by (simp add: set_rows_def)
  note e = norm2_values(3)
  have b': "madd (stiffness sq5) (diagmat ?Df) = Inr B \<Longrightarrow> submat B [2] [2] = Inr [[Fin 4]]" for B
    using b by (simp add: bindE_def)
  obtain B where B: "madd (stiffness sq5) (diagmat ?Df) = Inr B"
    using b by (cases "madd (stiffness sq5) (diagmat ?Df)") (simp_all add: bindE_def)
  have s1': "residual_free (stiffness sq5) (diag (mass sq5)) (pdenl_evalF ext5 [Fin 0, Fin 1, Fin 1, Fin 1, Fin 2])
     [Fin 0, Fin 0, Fin 0, Fin 0, Fin 0] [2] [Fin 0, Fin 1, Fin 1, Fin 1, Fin 2] = Inr [Fin (1 / 4)]"
    using residual_fresh by (simp add: ext_pdenl)
  show ?thesis
    by (simp only: NWTsolve_step_def Let_def a bindE_def sum.case B b'[OF B] c d1 d2 d3 s1' e)
qed

lemma NWTsolve_sq5: "NWTsolve ext5 [Fin 0, Fin 0, Fin 0, Fin 0, Fin 0] [Fin 0, Fin 1, Fin 0, Fin 1, Fin 2] 1
    (diag (mass sq5)) (stiffness sq5) lit_1e_6 [2] = Inr [Fin 0, Fin 1, Fin 1, Fin 1, Fin 2]"
proof -
  have l2: "NWTsolve_loop ext5 [Fin 0, Fin 0, Fin 0, Fin 0, Fin 0] (diag (mass sq5)) (stiffness sq5) [2]
      tol 1 (0 + 1) err r u = Inr u" for tol err r u
    by (subst NWTsolve_loop.simps) simp
  have c: "(0 :: nat) < 1 \<and> lit_1e_6 * Fin 4 < Fin 2 * (lit_1e_6 * Fin 4)"
    using lit_1e_6_loop_test by simp
  have l1: "NWTsolve_loop ext5 [Fin 0, Fin 0, Fin 0, Fin 0, Fin 0] (diag (mass sq5)) (stiffness sq5) [2]
      (lit_1e_6 * Fin 4) 1 0 (Fin 2 * (lit_1e_6 * Fin 4)) [Fin (- 4)]
      [Fin 0, Fin 1, Fin 0, Fin 1, Fin 2] = Inr [Fin 0, Fin 1, Fin 1, Fin 1, Fin 2]"
    apply (subst NWTsolve_loop.simps)
    apply (simp only: c if_True NWTsolve_step_sq5 sum.case fst_conv snd_conv l2)
    apply simp
    done
  show ?thesis
    by (simp only: NWTsolve_def Let_def ext_pdenl residual_init bindE_def sum.case norm2_values l1)
qed

section \<open>The boundary entries\<close>

text \<open>
  C4. Let the free and the boundary index sets of the mesh have no index in common, and let
  \<open>j\<close> be the \<open>k\<close>-th boundary index. Then: the vector set up in lines 51 and 56 holds at
  \<open>j\<close> the \<open>k\<close>-th value of the boundary function on the boundary nodes; a forward sweep
  that returns, every state that the loop of the backward sweep goes through (after any
  number of passes), and a global Newton solve that returns leave the entry \<open>j\<close> as it was
  (the 1-D Newton search returns a scalar, which the sweeps write to a free index only);
  and when the constructor returns a vector, its entry \<open>j\<close> is that boundary value.
\<close>

theorem boundary_entries_frozen:
  "set (freeNode mesh) \<inter> set (bdNode mesh) = {} \<Longrightarrow> distinct (bdNode mesh) \<Longrightarrow>
   k < length (bdNode mesh) \<Longrightarrow> j = bdNode mesh ! k \<Longrightarrow>
   (\<forall>v. Driver_init ext mesh = Inr v \<longrightarrow>
      v ! j = bdfun_evalF ext (map (\<lambda>i. node mesh ! i) (bdNode mesh)) ! k) \<and>
   (\<forall>u u'. GSsolve FunSCNL1D b u maxitr M A tol (freeNode mesh) = Inr u' \<longrightarrow> u' ! j = u ! j) \<and>
   (\<forall>n Nu i u i' u'. GSsolveb_iter n FunSCNL1D b M A (freeNode mesh) Nu i u = Inr (i', u') \<longrightarrow>
      u' ! j = u ! j) \<and>
   (\<forall>u u'. NWTsolve ext b u maxitr' M A tol' (freeNode mesh) = Inr u' \<longrightarrow> u' ! j = u ! j) \<and>
   (\<forall>meshprops funname u'. MeshMG_refined ext meshprops = mesh \<longrightarrow>
      FiniteElemNL ext meshprops funname = Some (Inr u') \<longrightarrow>
      u' ! j = bdfun_evalF ext (map (\<lambda>i. node mesh ! i) (bdNode mesh)) ! k)"
proof -
  assume disj: "set (freeNode mesh) \<inter> set (bdNode mesh) = {}" and dist: "distinct (bdNode mesh)"
    and k: "k < length (bdNode mesh)" and j: "j = bdNode mesh ! k"
  from k j have "j \<in> set (bdNode mesh)" by simp
  with disj have nf: "j \<notin> set (freeNode mesh)" by auto
  have init: "v ! j = bdfun_evalF ext (map (\<lambda>i. node mesh ! i) (bdNode mesh)) ! k"
    if "Driver_init ext mesh = Inr v" for v
    using Driver_init_value[OF that dist k] j by simp
  have fwd: "u' ! j = u ! j"
    if "GSsolve FunSCNL1D b u maxitr M A tol (freeNode mesh) = Inr u'" for u u'
    using GSsolve_frame[OF that] nf by blast
  have bwd: "u' ! j = u ! j"
    if "GSsolveb_iter n FunSCNL1D b M A (freeNode mesh) Nu i u = Inr (i', u')" for n Nu i u i' u'
    using GSsolveb_iter_frame[OF that] nf by blast
  have nwt: "u' ! j = u ! j"
    if "NWTsolve ext b u maxitr' M A tol' (freeNode mesh) = Inr u'" for u u'
    using NWTsolve_frame[OF that] nf by blast
  have ctor: "u' ! j = bdfun_evalF ext (map (\<lambda>i. node mesh ! i) (bdNode mesh)) ! k"
    if "MeshMG_refined ext meshprops = mesh" "FiniteElemNL ext meshprops funname = Some (Inr u')"
    for meshprops funname u'
    using FiniteElemNL_returns_init[OF that(2)] that(1) init by simp
  from init fwd bwd nwt ctor show ?thesis by blast
qed

theorem boundary_entries_frozen_witness:
  "set (freeNode sq5) \<inter> set (bdNode sq5) = {} \<and> distinct (bdNode sq5) \<and>
   1 < length (bdNode sq5) \<and> bdNode sq5 ! 1 = 1 \<and>
   Driver_init ext5 sq5 = Inr [Fin 0, Fin 1, Fin 0, Fin 1, Fin 2] \<and>
   [Fin 0, Fin 1, Fin 0, Fin 1, Fin 2] ! 1 =
     bdfun_evalF ext5 (map (\<lambda>i. node sq5 ! i) (bdNode sq5)) ! 1 \<and>
   GSsolve lin1D [Fin 0, Fin 0, Fin 0, Fin 0, Fin 0] [Fin 0, Fin 1, Fin 0, Fin 1, Fin 2] 10
     (diag (mass sq5)) (stiffness sq5) lit_1e_6 (freeNode sq5)
     = Inr [Fin 0, Fin 1, Fin 1, Fin 1, Fin 2] \<and>
   GSsolveb_iter (Suc (Suc 0)) lin1D [Fin 0, Fin 0, Fin 0, Fin 0, Fin 0] (diag (mass sq5))
     (stiffness sq5) (freeNode sq5) 5 3 [Fin 0, Fin 1, Fin 1, Fin 1, Fin 2]
     = Inr (1, [Fin 0, Fin 1, Fin 0, Fin 1, Fin 2]) \<and>
   NWTsolve ext5 [Fin 0, Fin 0, Fin 0, Fin 0, Fin 0] [Fin 0, Fin 1, Fin 0, Fin 1, Fin 2] 1
     (diag (mass sq5)) (stiffness sq5) lit_1e_6 (freeNode sq5)
     = Inr [Fin 0, Fin 1, Fin 1, Fin 1, Fin 2] \<and>
   [Fin 0, Fin 1, Fin 1, Fin 1, Fin 2] ! 1 = [Fin 0, Fin 1, Fin 0, Fin 1, Fin 2] ! 1 \<and>
   FiniteElemNL ext0 [] [] = Some (Inr [Fin 0, Fin 0, Fin 0, Fin 0, Fin 0]) \<and>
   [Fin 0, Fin 0, Fin 0, Fin 0, Fin 0] ! 1 =
     bdfun_evalF ext0 (map (\<lambda>i. node sq5 ! i) (bdNode sq5)) ! 1"
proof -
  have f: "freeNode sq5 = [2]" by (simp add: sq5_def)
  have h1: "set (freeNode sq5) \<inter> set (bdNode sq5) = {}" by (simp add: sq5_def)
  have h2: "distinct (bdNode sq5)" by (simp add: sq5_def)
  have h3: "1 < length (bdNode sq5)" by (simp add: sq5_def)
  have h4: "bdNode sq5 ! 1 = 1" by (simp add: sq5_def)
  have c0: "FiniteElemNL ext0 [] [] = Some (Inr [Fin 0, Fin 0, Fin 0, Fin 0, Fin 0])"
    using FiniteElemNL_ext0 FiniteElemNL_ignores_name[of ext0 "[]" "[]" "''no such function''"]
    by (simp only:)
  note T5 = boundary_entries_frozen[OF h1 h2 h3 h4[symmetric], of ext5 lin1D
      "[Fin 0, Fin 0, Fin 0, Fin 0, Fin 0]" 10 "diag (mass sq5)" "stiffness sq5"
      lit_1e_6 1 lit_1e_6]
  note T0 = boundary_entries_frozen[OF h1 h2 h3 h4[symmetric], of ext0 lin1D
      "[Fin 0, Fin 0, Fin 0, Fin 0, Fin 0]" 10 "diag (mass sq5)" "stiffness sq5"
      lit_1e_6 1 lit_1e_6]
  have a: "[Fin 0, Fin 1, Fin 0, Fin 1, Fin 2] ! 1 =
     bdfun_evalF ext5 (map (\<lambda>i. node sq5 ! i) (bdNode sq5)) ! 1"
    using T5 Driver_init_ext5 by blast
  have b: "[Fin 0, Fin 1, Fin 1, Fin 1, Fin 2] ! 1 = [Fin 0, Fin 1, Fin 0, Fin 1, Fin 2] ! 1"
    using T5 GSsolve_sq5 unfolding f by blast
  have c: "[Fin 0, Fin 0, Fin 0, Fin 0, Fin 0] ! 1 =
     bdfun_evalF ext0 (map (\<lambda>i. node sq5 ! i) (bdNode sq5)) ! 1"
    using T0 c0 ext_mesh(1)[of "[]"] by blast
  have g: "GSsolve lin1D [Fin 0, Fin 0, Fin 0, Fin 0, Fin 0] [Fin 0, Fin 1, Fin 0, Fin 1, Fin 2] 10
     (diag (mass sq5)) (stiffness sq5) lit_1e_6 (freeNode sq5)
     = Inr [Fin 0, Fin 1, Fin 1, Fin 1, Fin 2]"
    unfolding f by (rule GSsolve_sq5)
  have i: "GSsolveb_iter (Suc (Suc 0)) lin1D [Fin 0, Fin 0, Fin 0, Fin 0, Fin 0] (diag (mass sq5))
     (stiffness sq5) (freeNode sq5) 5 3 [Fin 0, Fin 1, Fin 1, Fin 1, Fin 2]
     = Inr (1, [Fin 0, Fin 1, Fin 0, Fin 1, Fin 2])"
    unfolding f by (rule GSsolveb_iter_sq5)
  have n: "NWTsolve ext5 [Fin 0, Fin 0, Fin 0, Fin 0, Fin 0] [Fin 0, Fin 1, Fin 0, Fin 1, Fin 2] 1
     (diag (mass sq5)) (stiffness sq5) lit_1e_6 (freeNode sq5)
     = Inr [Fin 0, Fin 1, Fin 1, Fin 1, Fin 2]"
    unfolding f by (rule NWTsolve_sq5)
  show ?thesis
    by (intro conjI h1 h2 h3 h4 Driver_init_ext5 a g i n b c0 c)
qed

section \<open>The passes of the outer loop\<close>





section \<open>The function name\<close>

text \<open>
  C9 (the code departs from the claim and from its own documentation). The claim: the
  constructor selects the evaluators by looking its function name up, and fails with an
  UnknownFunctionName condition for a name it does not know. The comment of the
  constructor (lines 29-38) says of its parameter \<^verbatim>\<open>fun\<close> that it is the name of the
  function to use. The code: lines 44-46 create \<^verbatim>\<open>FunZeros\<close>, \<^verbatim>\<open>FunBoltz\<close> and
  \<^verbatim>\<open>FunSCNL\<close> whatever the name is; \<^verbatim>\<open>fun\<close> is not read. For any two names the
  constructor does the same, and on the square mesh with zero boundary data, called with a
  name that names no function, it returns the zero solution.
\<close>

theorem FiniteElemNL_ignores_fun:
  "FiniteElemNL ext meshprops funname = FiniteElemNL ext meshprops funname' \<and>
   FiniteElemNL ext0 [] ''no such function'' = Some (Inr [Fin 0, Fin 0, Fin 0, Fin 0, Fin 0])"
  by (intro conjI FiniteElemNL_ignores_name FiniteElemNL_ext0)

end
